theory Spec2Isabelle
  imports Main "HOL-Library.AList"
begin

section \<open>Data model of FileSyncManager\<close>

text \<open>
  The class \<^verbatim>\<open>FileSyncManager\<close> keeps the SQLite table \<^verbatim>\<open>files\<close> in step with a
  directory tree. Its collaborators (the file system, the clock, the SQLite driver and
  the chokidar watcher) are not part of the class; they appear here as an environment
  record and as a small model of the one table the class uses.

  Errors are values: whatever the source throws is an \<open>error\<close>, a fallible method
  returns \<open>error + 'a\<close> together with the manager state it leaves behind (an exception
  does not undo the statements that ran before it). Numbers are integers: sizes and
  times stay far below the range where JavaScript numbers lose precision. The progress
  messages written with \<^verbatim>\<open>console.log\<close> are left out. A path or a file name is a
  \<open>string\<close>: the bytes of its UTF-8 encoding.
\<close>

datatype error =
    ENOENT
  | EACCES
  | ENOTDIR
  | DatabaseNotInitialized
  | SQLITE_CONSTRAINT
  | SQLITE_IOERR

text \<open>The type \<^verbatim>\<open>FileRecord\<close>. The fields \<^verbatim>\<open>id\<close> and \<^verbatim>\<open>size\<close> carry a prime,
  since \<open>id\<close> and \<open>size\<close> are constants of HOL.\<close>

record FileRecord =
  id' :: "nat option"
  file_path :: string
  size' :: int
  modified_time :: int
  checksum :: string
  created_at :: string
  updated_at :: string

text \<open>What \<^verbatim>\<open>fs.stat\<close> gives and the class reads: \<^verbatim>\<open>stats.size\<close> and
  \<^verbatim>\<open>stats.mtime.getTime()\<close>, the modification time in milliseconds.\<close>

record Stats =
  stats_size :: int
  mtime_getTime :: int

text \<open>A node of the directory tree as \<^verbatim>\<open>fs.readdir(dir, {withFileTypes: true})\<close>
  shows it: an entry is a regular file (\<^verbatim>\<open>isFile()\<close>), a directory (\<^verbatim>\<open>isDirectory()\<close>)
  whose listing succeeds or fails, or something else (a symbolic link, a socket, a
  device), for which both tests are false.\<close>

datatype fsnode =
    RegularFile
  | Directory "(string \<times> fsnode) list"
  | UnreadableDirectory error
  | Special

text \<open>The table \<^verbatim>\<open>files\<close>: its rows in table order and the counter of
  \<^verbatim>\<open>AUTOINCREMENT\<close>.\<close>

record database =
  rows :: "FileRecord list"
  seq :: nat

datatype dbop = SelectAll | Insert string | Update string | Delete string

text \<open>The events the manager emits (\<^verbatim>\<open>file.added\<close>, \<^verbatim>\<open>file.updated\<close>,
  \<^verbatim>\<open>file.removed\<close>) and everything else an observer sees of a run, in the order it
  happens: the errors written with \<^verbatim>\<open>console.error\<close> and the files whose content was
  read for a checksum.\<close>

datatype event = FileAdded FileRecord | FileUpdated FileRecord | FileRemoved string

datatype obs = Emit event | ConsoleError error | ReadContent string

text \<open>The one option of chokidar the class sets itself. \<open>None\<close> is an options object
  without the key \<^verbatim>\<open>ignored\<close>.\<close>

record ChokidarOptions =
  ignored :: "(string \<Rightarrow> bool) option"

text \<open>The private fields of the class, and the trace of what it did.\<close>

record manager =
  db :: "database option"
  watcher :: "ChokidarOptions option"
  watchFolder :: string
  watchOptions :: ChokidarOptions
  trace :: "obs list"

text \<open>The environment: the tree below the watch folder, \<^verbatim>\<open>fs.stat\<close> and
  \<^verbatim>\<open>fs.readFile\<close> by path, the digest primitive, the clock, and the failures of the
  SQLite driver that do not depend on the table's content (a locked or unreachable
  database file). The environment is fixed during one operation.\<close>

record env =
  root :: fsnode
  stat :: "string \<Rightarrow> error + Stats"
  readFile :: "string \<Rightarrow> error + string"
  sha256_hex :: "string \<Rightarrow> string"
  now_iso :: string
  db_fault :: "dbop \<Rightarrow> error option"

definition console_error :: "error \<Rightarrow> manager \<Rightarrow> manager" where
  "console_error e m = m\<lparr>trace := trace m @ [ConsoleError e]\<rparr>"

definition emit :: "event \<Rightarrow> manager \<Rightarrow> manager" where
  "emit ev m = m\<lparr>trace := trace m @ [Emit ev]\<rparr>"

section \<open>Checksum service and file inspector\<close>

definition calculateChecksum :: "env \<Rightarrow> string \<Rightarrow> manager \<Rightarrow> (error + string) \<times> manager" where
  "calculateChecksum E filePath m =
     (let m1 = m\<lparr>trace := trace m @ [ReadContent filePath]\<rparr> in
      case readFile E filePath of
        Inl e \<Rightarrow> (Inl e, console_error e m1)
      | Inr data \<Rightarrow> (Inr (sha256_hex E data), m1))"

definition createFileRecord :: "env \<Rightarrow> string \<Rightarrow> manager \<Rightarrow> (error + FileRecord) \<times> manager" where
  "createFileRecord E filePath m =
     (case stat E filePath of
        Inl e \<Rightarrow> (Inl e, console_error e m)
      | Inr stats \<Rightarrow>
          (case calculateChecksum E filePath m of
             (Inl e, m1) \<Rightarrow> (Inl e, console_error e m1)
           | (Inr chk, m1) \<Rightarrow>
               (Inr \<lparr>id' = None, file_path = filePath, size' = stats_size stats,
                     modified_time = mtime_getTime stats div 1000, checksum = chk,
                     created_at = now_iso E, updated_at = now_iso E\<rparr>, m1)))"

section \<open>Directory scanner\<close>

text \<open>\<^verbatim>\<open>path.join(dirPath, entry.name)\<close> for a resolved directory path and the name
  of one of its entries.\<close>

definition path_join :: "string \<Rightarrow> string \<Rightarrow> string" where
  "path_join dirPath name = (if dirPath = ''/'' then dirPath @ name else dirPath @ ''/'' @ name)"

fun isDirectory :: "fsnode \<Rightarrow> bool" where
  "isDirectory (Directory _) = True"
| "isDirectory (UnreadableDirectory _) = True"
| "isDirectory _ = False"

fun isFile :: "fsnode \<Rightarrow> bool" where
  "isFile RegularFile = True"
| "isFile _ = False"

text \<open>\<^verbatim>\<open>#scanDirectory\<close>: the loop over the entries is \<open>scanEntries\<close>, with the
  array \<^verbatim>\<open>files\<close> as its accumulator. Every level of the recursion has its own
  \<^verbatim>\<open>try/catch\<close>, which logs and throws again.\<close>

fun scanDirectory :: "string \<Rightarrow> fsnode \<Rightarrow> manager \<Rightarrow> (error + string list) \<times> manager"
  and scanEntries :: "string \<Rightarrow> (string \<times> fsnode) list \<Rightarrow> string list \<Rightarrow> manager
        \<Rightarrow> (error + string list) \<times> manager" where
  "scanDirectory dirPath (Directory entries) m =
     (case scanEntries dirPath entries [] m of
        (Inl e, m1) \<Rightarrow> (Inl e, console_error e m1)
      | (Inr files, m1) \<Rightarrow> (Inr files, m1))"
| "scanDirectory dirPath (UnreadableDirectory e) m = (Inl e, console_error e m)"
| "scanDirectory dirPath RegularFile m = (Inl ENOTDIR, console_error ENOTDIR m)"
| "scanDirectory dirPath Special m = (Inl ENOTDIR, console_error ENOTDIR m)"
| "scanEntries dirPath [] files m = (Inr files, m)"
| "scanEntries dirPath ((name, node) # rest) files m =
     (if isDirectory node then
        (case scanDirectory (path_join dirPath name) node m of
           (Inl e, m1) \<Rightarrow> (Inl e, m1)
         | (Inr subFiles, m1) \<Rightarrow> scanEntries dirPath rest (files @ subFiles) m1)
      else if isFile node then scanEntries dirPath rest (files @ [path_join dirPath name]) m
      else scanEntries dirPath rest files m)"

section \<open>The record store\<close>

text \<open>
  The statements are those of the source; what SQLite does with them is modelled here.
  \<^verbatim>\<open>INSERT\<close> appends a row with the next id and fails on a second row for a path
  (\<^verbatim>\<open>file_path TEXT UNIQUE\<close>). \<^verbatim>\<open>UPDATE ... WHERE file_path = ?\<close> rewrites four
  columns of the rows with that path and \<^verbatim>\<open>DELETE ... WHERE file_path = ?\<close> removes
  them; a statement that matches no row changes nothing and is not an error.
\<close>

definition insertFileRecord :: "env \<Rightarrow> FileRecord \<Rightarrow> manager \<Rightarrow> (error + unit) \<times> manager" where
  "insertFileRecord E record m =
     (case db m of
        None \<Rightarrow> (Inl DatabaseNotInitialized, m)
      | Some d \<Rightarrow>
          (case db_fault E (Insert (file_path record)) of
             Some e \<Rightarrow> (Inl e, console_error e m)
           | None \<Rightarrow>
               if file_path record \<in> set (map file_path (rows d))
               then (Inl SQLITE_CONSTRAINT, console_error SQLITE_CONSTRAINT m)
               else
                 (let lastID = Suc (seq d);
                      d1 = d\<lparr>rows := rows d @ [record\<lparr>id' := Some lastID\<rparr>], seq := lastID\<rparr>
                  in (Inr (), emit (FileAdded (record\<lparr>id' := Some lastID\<rparr>)) (m\<lparr>db := Some d1\<rparr>)))))"

definition set_columns :: "FileRecord \<Rightarrow> FileRecord \<Rightarrow> FileRecord" where
  "set_columns record row =
     (if file_path row = file_path record
      then row\<lparr>size' := size' record, modified_time := modified_time record,
               checksum := checksum record, updated_at := updated_at record\<rparr>
      else row)"

definition updateFileRecord :: "env \<Rightarrow> FileRecord \<Rightarrow> manager \<Rightarrow> (error + FileRecord) \<times> manager" where
  "updateFileRecord E record m =
     (case db m of
        None \<Rightarrow> (Inl DatabaseNotInitialized, m)
      | Some d \<Rightarrow>
          (case db_fault E (Update (file_path record)) of
             Some e \<Rightarrow> (Inl e, console_error e m)
           | None \<Rightarrow>
               (Inr record,
                emit (FileUpdated record)
                  (m\<lparr>db := Some (d\<lparr>rows := map (set_columns record) (rows d)\<rparr>)\<rparr>))))"

definition removeFileRecord :: "env \<Rightarrow> string \<Rightarrow> manager \<Rightarrow> (error + unit) \<times> manager" where
  "removeFileRecord E filePath m =
     (case db m of
        None \<Rightarrow> (Inl DatabaseNotInitialized, m)
      | Some d \<Rightarrow>
          (case db_fault E (Delete filePath) of
             Some e \<Rightarrow> (Inl e, console_error e m)
           | None \<Rightarrow>
               (Inr (),
                emit (FileRemoved filePath)
                  (m\<lparr>db := Some (d\<lparr>rows := filter (\<lambda>row. file_path row \<noteq> filePath) (rows d)\<rparr>)\<rparr>))))"

text \<open>\<^verbatim>\<open>#getAllFileRecords\<close> builds a \<^verbatim>\<open>Map\<close> keyed by path: \<^verbatim>\<open>Map.set\<close> keeps a
  key at the place of its first insertion and replaces its value.\<close>

definition getAllFileRecords :: "env \<Rightarrow> manager \<Rightarrow> (error + (string \<times> FileRecord) list) \<times> manager" where
  "getAllFileRecords E m =
     (case db m of
        None \<Rightarrow> (Inl DatabaseNotInitialized, m)
      | Some d \<Rightarrow>
          (case db_fault E SelectAll of
             Some e \<Rightarrow> (Inl e, console_error e m)
           | None \<Rightarrow>
               (Inr (fold (\<lambda>row recordMap. AList.update (file_path row) row recordMap) (rows d) []), m)))"

section \<open>Change detector\<close>

definition hasFileChanged :: "env \<Rightarrow> string \<Rightarrow> FileRecord \<Rightarrow> manager \<Rightarrow> bool \<times> manager" where
  "hasFileChanged E filePath dbRecord m =
     (case stat E filePath of
        Inl e \<Rightarrow> (True, console_error e m)
      | Inr stats \<Rightarrow>
          (let modifiedTime = mtime_getTime stats div 1000 in
           if stats_size stats \<noteq> size' dbRecord \<or> modifiedTime \<noteq> modified_time dbRecord
           then (True, m)
           else
             (case calculateChecksum E filePath m of
                (Inl e, m1) \<Rightarrow> (True, console_error e m1)
              | (Inr currentChecksum, m1) \<Rightarrow> (currentChecksum \<noteq> checksum dbRecord, m1))))"

section \<open>Reconciliation engine\<close>

text \<open>The body of the first loop of \<^verbatim>\<open>performInitialSync\<close>, for one path.\<close>

definition syncFile :: "env \<Rightarrow> (string \<times> FileRecord) list \<Rightarrow> string \<Rightarrow> manager
    \<Rightarrow> (error + unit) \<times> manager" where
  "syncFile E dbRecords filePath m =
     (case map_of dbRecords filePath of
        None \<Rightarrow>
          (case createFileRecord E filePath m of
             (Inl e, m1) \<Rightarrow> (Inl e, m1)
           | (Inr fileRecord, m1) \<Rightarrow> insertFileRecord E fileRecord m1)
      | Some dbRecord \<Rightarrow>
          (case hasFileChanged E filePath dbRecord m of
             (True, m1) \<Rightarrow>
               (case createFileRecord E filePath m1 of
                  (Inl e, m2) \<Rightarrow> (Inl e, m2)
                | (Inr updatedRecord, m2) \<Rightarrow>
                    (case updateFileRecord E (updatedRecord\<lparr>id' := id' dbRecord\<rparr>) m2 of
                       (Inl e, m3) \<Rightarrow> (Inl e, m3)
                     | (Inr _, m3) \<Rightarrow> (Inr (), m3)))
           | (False, m1) \<Rightarrow> (Inr (), m1)))"

text \<open>The first loop: it stops at the first exception; \<open>processedFiles\<close> is the
  \<^verbatim>\<open>Set\<close> of the source.\<close>

fun syncFiles :: "env \<Rightarrow> (string \<times> FileRecord) list \<Rightarrow> string list \<Rightarrow> string set \<Rightarrow> manager
    \<Rightarrow> (error + string set) \<times> manager" where
  "syncFiles E dbRecords [] processedFiles m = (Inr processedFiles, m)"
| "syncFiles E dbRecords (filePath # rest) processedFiles m =
     (case syncFile E dbRecords filePath m of
        (Inl e, m1) \<Rightarrow> (Inl e, m1)
      | (Inr _, m1) \<Rightarrow> syncFiles E dbRecords rest (insert filePath processedFiles) m1)"

text \<open>The second loop, over the keys of \<^verbatim>\<open>dbRecords\<close> in the order of the
  \<^verbatim>\<open>Map\<close>.\<close>

fun removeStale :: "env \<Rightarrow> string list \<Rightarrow> string set \<Rightarrow> manager \<Rightarrow> (error + unit) \<times> manager" where
  "removeStale E [] processedFiles m = (Inr (), m)"
| "removeStale E (filePath # rest) processedFiles m =
     (if filePath \<notin> processedFiles then
        (case removeFileRecord E filePath m of
           (Inl e, m1) \<Rightarrow> (Inl e, m1)
         | (Inr _, m1) \<Rightarrow> removeStale E rest processedFiles m1)
      else removeStale E rest processedFiles m)"

text \<open>The \<^verbatim>\<open>try\<close> block of \<^verbatim>\<open>performInitialSync\<close>, and the method with its
  \<^verbatim>\<open>catch\<close>, which logs the error and throws it again.\<close>

definition initialSyncBody :: "env \<Rightarrow> manager \<Rightarrow> (error + unit) \<times> manager" where
  "initialSyncBody E m =
     (case scanDirectory (watchFolder m) (root E) m of
        (Inl e, m1) \<Rightarrow> (Inl e, m1)
      | (Inr currentFiles, m1) \<Rightarrow>
          (case getAllFileRecords E m1 of
             (Inl e, m2) \<Rightarrow> (Inl e, m2)
           | (Inr dbRecords, m2) \<Rightarrow>
               (case syncFiles E dbRecords currentFiles {} m2 of
                  (Inl e, m3) \<Rightarrow> (Inl e, m3)
                | (Inr processedFiles, m3) \<Rightarrow>
                    removeStale E (map fst dbRecords) processedFiles m3)))"

definition performInitialSync :: "env \<Rightarrow> manager \<Rightarrow> (error + unit) \<times> manager" where
  "performInitialSync E m =
     (case initialSyncBody E m of
        (Inl e, m1) \<Rightarrow> (Inl e, console_error e m1)
      | (Inr u, m1) \<Rightarrow> (Inr u, m1))"

section \<open>Incremental update handler\<close>

text \<open>\<^verbatim>\<open>#handleFileAddOrChange\<close>. The promise it returns never rejects: the outer
  \<^verbatim>\<open>catch\<close> logs whatever was thrown. The inner \<^verbatim>\<open>catch\<close> runs the insert when, and
  only when, \<^verbatim>\<open>#updateFileRecord\<close> threw. (The delay of 100 ms before the file is
  inspected is not part of the model.)\<close>

definition handleFileAddOrChange :: "env \<Rightarrow> string \<Rightarrow> manager \<Rightarrow> manager" where
  "handleFileAddOrChange E filePath m =
     (case createFileRecord E filePath m of
        (Inl e, m1) \<Rightarrow> console_error e m1
      | (Inr fileRecord, m1) \<Rightarrow>
          (case db m1 of
             None \<Rightarrow> console_error DatabaseNotInitialized m1
           | Some _ \<Rightarrow>
               (case updateFileRecord E fileRecord m1 of
                  (Inr _, m2) \<Rightarrow> m2
                | (Inl _, m2) \<Rightarrow>
                    (case insertFileRecord E fileRecord m2 of
                       (Inl e, m3) \<Rightarrow> console_error e m3
                     | (Inr _, m3) \<Rightarrow> m3))))"

section \<open>The watcher\<close>

text \<open>
  The default of \<^verbatim>\<open>startWatching\<close> is \<^verbatim>\<open>ignored: /(^|[\/\\])\../\<close>. The pattern is
  searched anywhere in the path: a dot at the start of the path or after a slash or a
  backslash, followed by one character that \<^verbatim>\<open>.\<close> matches, which is any character but
  a line terminator: LF, CR, U+2028 or U+2029.

  A path is the list of the bytes of its UTF-8 encoding. The slash, the backslash and
  the dot are single bytes that occur in no longer sequence, so the pattern finds them
  in the bytes where it finds them in the characters; LF and CR are single bytes too,
  and U+2028 and U+2029 are the three bytes E2 80 A8 and E2 80 A9, which decode to
  nothing else. Any other byte after the dot starts a character that \<^verbatim>\<open>.\<close> matches.
\<close>

definition line_terminator_at :: "string \<Rightarrow> bool" where
  "line_terminator_at s =
     (take 1 s = [CHR 0x0A] \<or> take 1 s = [CHR 0x0D] \<or>
      take 3 s = [CHR 0xE2, CHR 0x80, CHR 0xA8] \<or> take 3 s = [CHR 0xE2, CHR 0x80, CHR 0xA9])"

fun dot_any :: "string \<Rightarrow> bool" where
  "dot_any (c # d # rest) = (c = CHR ''.'' \<and> \<not> line_terminator_at (d # rest))"
| "dot_any _ = False"

fun separator_dot_any :: "string \<Rightarrow> bool" where
  "separator_dot_any [] = False"
| "separator_dot_any (c # cs) =
     (((c = CHR ''/'' \<or> c = CHR 0x5C) \<and> dot_any cs) \<or> separator_dot_any cs)"

definition ignore_dotfiles :: "string \<Rightarrow> bool" where
  "ignore_dotfiles path = (dot_any path \<or> separator_dot_any path)"

definition defaultOptions :: ChokidarOptions where
  "defaultOptions = \<lparr>ignored = Some ignore_dotfiles\<rparr>"

text \<open>The object spread \<^verbatim>\<open>{...defaultOptions, ...this.#watchOptions}\<close>: a key
  of the second object replaces that of the first.\<close>

definition spread :: "ChokidarOptions \<Rightarrow> ChokidarOptions \<Rightarrow> ChokidarOptions" where
  "spread a b = \<lparr>ignored = (case ignored b of None \<Rightarrow> ignored a | Some f \<Rightarrow> Some f)\<rparr>"

datatype watch_event = Add string | Change string | Unlink string | WatcherError error

text \<open>The four listeners of \<^verbatim>\<open>startWatching\<close>. None of them awaits or catches the
  promise of the method it calls; the first component of the result is the rejection
  of that promise, if it rejects.\<close>

definition listener :: "env \<Rightarrow> watch_event \<Rightarrow> manager \<Rightarrow> error option \<times> manager" where
  "listener E ev m =
     (case ev of
        Add filePath \<Rightarrow> (None, handleFileAddOrChange E filePath m)
      | Change filePath \<Rightarrow> (None, handleFileAddOrChange E filePath m)
      | Unlink filePath \<Rightarrow>
          (case removeFileRecord E filePath m of
             (Inl e, m1) \<Rightarrow> (Some e, m1)
           | (Inr _, m1) \<Rightarrow> (None, m1))
      | WatcherError e \<Rightarrow> (None, console_error e m))"

definition startWatching :: "manager \<Rightarrow> manager" where
  "startWatching m = m\<lparr>watcher := Some (spread defaultOptions (watchOptions m))\<rparr>"

definition stopWatching :: "manager \<Rightarrow> manager" where
  "stopWatching m = m\<lparr>watcher := None\<rparr>"

definition closeDatabase :: "manager \<Rightarrow> manager" where
  "closeDatabase m = m\<lparr>db := None\<rparr>"

definition shutdown :: "manager \<Rightarrow> manager" where
  "shutdown m = closeDatabase (stopWatching m)"

text \<open>What chokidar does with a change of the file system: a closed watcher reports
  nothing, and an open one reports the change unless its path is ignored.\<close>

fun event_path :: "watch_event \<Rightarrow> string option" where
  "event_path (Add p) = Some p"
| "event_path (Change p) = Some p"
| "event_path (Unlink p) = Some p"
| "event_path (WatcherError _) = None"

definition reported :: "ChokidarOptions \<Rightarrow> watch_event \<Rightarrow> bool" where
  "reported opts ev =
     (case (ignored opts, event_path ev) of
        (Some matches, Some p) \<Rightarrow> \<not> matches p
      | _ \<Rightarrow> True)"

definition deliver :: "env \<Rightarrow> watch_event \<Rightarrow> manager \<Rightarrow> error option \<times> manager" where
  "deliver E ev m =
     (case watcher m of
        None \<Rightarrow> (None, m)
      | Some opts \<Rightarrow> if reported opts ev then listener E ev m else (None, m))"

text \<open>The process of \<^verbatim>\<open>main.ts\<close> after a successful start, fed the changes of the
  file system one after the other: its \<^verbatim>\<open>unhandledRejection\<close> handler logs the reason
  and calls \<^verbatim>\<open>gracefulShutdown\<close>, which shuts the manager down and exits with code 0.
  The second component is the exit code, \<open>None\<close> while the process runs. The work a
  listener starts is run to its end before the next change is delivered.\<close>

fun run_events :: "env \<Rightarrow> watch_event list \<Rightarrow> manager \<Rightarrow> manager \<times> int option" where
  "run_events E [] m = (m, None)"
| "run_events E (ev # evs) m =
     (case deliver E ev m of
        (None, m1) \<Rightarrow> run_events E evs m1
      | (Some reason, m1) \<Rightarrow> (shutdown (console_error reason m1), Some 0))"

section \<open>Notions used in the statements\<close>

text \<open>A stored record agrees with the file at a path: the file can be inspected and
  read, and its size, whole-second modification time and digest are the record's.\<close>

definition unchanged :: "env \<Rightarrow> string \<Rightarrow> FileRecord \<Rightarrow> bool" where
  "unchanged E p r =
     (case (stat E p, readFile E p) of
        (Inr st, Inr data) \<Rightarrow>
          size' r = stats_size st \<and> modified_time r = mtime_getTime st div 1000 \<and>
          checksum r = sha256_hex E data
      | _ \<Rightarrow> False)"

text \<open>The paths of a table's rows, in table order.\<close>

definition paths :: "database \<Rightarrow> string list" where
  "paths d = map file_path (rows d)"

text \<open>The two kinds of observation the statements tell apart: an emitted event, which
  stands for a statement that changed the table, and a logged error.\<close>

fun is_emit :: "obs \<Rightarrow> bool" where
  "is_emit (Emit _) = True"
| "is_emit _ = False"

fun is_error :: "obs \<Rightarrow> bool" where
  "is_error (ConsoleError _) = True"
| "is_error _ = False"

text \<open>A manager with more observations at the end of its trace.\<close>

definition logged :: "manager \<Rightarrow> obs list \<Rightarrow> manager" where
  "logged m t = m\<lparr>trace := trace m @ t\<rparr>"

text \<open>The regular files below a directory, in the order of a depth-first walk: every
  regular file, whatever its name, and nothing of a directory that cannot be listed.\<close>

fun files_below :: "string \<Rightarrow> fsnode \<Rightarrow> string list"
  and files_in :: "string \<Rightarrow> (string \<times> fsnode) list \<Rightarrow> string list" where
  "files_below dirPath (Directory entries) = files_in dirPath entries"
| "files_below dirPath (UnreadableDirectory e) = []"
| "files_below dirPath RegularFile = []"
| "files_below dirPath Special = []"
| "files_in dirPath [] = []"
| "files_in dirPath ((name, node) # rest) =
     (if isDirectory node then files_below (path_join dirPath name) node
      else if isFile node then [path_join dirPath name] else []) @ files_in dirPath rest"

text \<open>A node is a directory and \<^verbatim>\<open>fs.readdir\<close> succeeds on it and on every directory
  below it.\<close>

fun listable :: "fsnode \<Rightarrow> bool"
  and entries_listable :: "(string \<times> fsnode) list \<Rightarrow> bool" where
  "listable (Directory entries) = entries_listable entries"
| "listable (UnreadableDirectory e) = False"
| "listable RegularFile = False"
| "listable Special = False"
| "entries_listable [] = True"
| "entries_listable ((name, node) # rest) =
     ((if isDirectory node then listable node else True) \<and> entries_listable rest)"

text \<open>The \<^verbatim>\<open>Map\<close> of \<^verbatim>\<open>#getAllFileRecords\<close> for a table without two rows of one
  path.\<close>

definition as_map :: "FileRecord list \<Rightarrow> (string \<times> FileRecord) list" where
  "as_map rs = map (\<lambda>r. (file_path r, r)) rs"

text \<open>The invariant of the first loop of \<^verbatim>\<open>performInitialSync\<close>, with \<open>rows0\<close> the
  rows at the start and \<open>P\<close> the paths processed so far: no path has two rows, the
  paths are the old ones and the processed ones, a row of a processed path agrees with
  its file, and any other row is as it was.\<close>

definition loop_invariant :: "env \<Rightarrow> FileRecord list \<Rightarrow> string set \<Rightarrow> database \<Rightarrow> bool" where
  "loop_invariant E rows0 P d =
     (distinct (paths d) \<and> set (paths d) = file_path ` set rows0 \<union> P \<and>
      (\<forall>r \<in> set (rows d). if file_path r \<in> P then unchanged E (file_path r) r else r \<in> set rows0))"

text \<open>A loop that stops at the first failure: what it emits, it emits before the first
  error it logs.\<close>

definition aborts_cleanly :: "obs list \<Rightarrow> bool \<Rightarrow> bool" where
  "aborts_cleanly t failed =
     (\<exists>t1 t2. t = t1 @ t2 \<and> list_all (\<lambda>x. \<not> is_error x) t1 \<and>
              list_all (\<lambda>x. \<not> is_emit x) t2 \<and> (\<not> failed \<longrightarrow> t2 = []))"

text \<open>The same, as a test on a trace: once an error is logged, no event follows.\<close>

fun no_emit_after_error :: "obs list \<Rightarrow> bool" where
  "no_emit_after_error [] = True"
| "no_emit_after_error (x # xs) =
     (if is_error x then list_all (\<lambda>y. \<not> is_emit y) xs else no_emit_after_error xs)"

text \<open>The regular files below a directory, each as the path of the directory that
  holds it and its name there; \<open>files_below\<close> joins the two.\<close>

fun entries_below :: "string \<Rightarrow> fsnode \<Rightarrow> (string \<times> string) list"
  and entries_in :: "string \<Rightarrow> (string \<times> fsnode) list \<Rightarrow> (string \<times> string) list" where
  "entries_below dirPath (Directory entries) = entries_in dirPath entries"
| "entries_below dirPath (UnreadableDirectory e) = []"
| "entries_below dirPath RegularFile = []"
| "entries_below dirPath Special = []"
| "entries_in dirPath [] = []"
| "entries_in dirPath ((name, node) # rest) =
     (if isDirectory node then entries_below (path_join dirPath name) node
      else if isFile node then [(dirPath, name)] else []) @ entries_in dirPath rest"

section \<open>An example run\<close>

text \<open>A small file system and table on which the statements below are evaluated. The
  digest is a stand-in that keeps the content readable.\<close>

definition ex_env :: env where
  "ex_env =
     \<lparr>root = Directory [(''a.txt'', RegularFile), (''sub'', Directory [(''b.txt'', RegularFile)])],
      stat = (\<lambda>p. if p = ''/w/a.txt'' \<or> p = ''/w/sub/b.txt''
                   then Inr \<lparr>stats_size = 5, mtime_getTime = 1700000000123\<rparr> else Inl ENOENT),
      readFile = (\<lambda>p. if p = ''/w/a.txt'' then Inr ''AAAAA''
                       else if p = ''/w/sub/b.txt'' then Inr ''BBBBB'' else Inl ENOENT),
      sha256_hex = (\<lambda>data. ''sha256:'' @ data),
      now_iso = ''2025-01-01T00:00:00.000Z'',
      db_fault = (\<lambda>_. None)\<rparr>"

definition ex_row :: "nat \<Rightarrow> string \<Rightarrow> string \<Rightarrow> FileRecord" where
  "ex_row i p c =
     \<lparr>id' = Some i, file_path = p, size' = 5, modified_time = 1700000000, checksum = c,
      created_at = ''2024-12-31T00:00:00.000Z'', updated_at = ''2024-12-31T00:00:00.000Z''\<rparr>"

definition ex_db :: database where
  "ex_db = \<lparr>rows = [ex_row 1 ''/w/gone.txt'' ''sha256:XXXXX'', ex_row 2 ''/w/a.txt'' ''sha256:aaaaa''],
            seq = 2\<rparr>"

definition ex_manager :: manager where
  "ex_manager =
     \<lparr>db = Some ex_db, watcher = None, watchFolder = ''/w'', watchOptions = \<lparr>ignored = None\<rparr>,
      trace = []\<rparr>"

definition ex_fresh :: "nat option \<Rightarrow> string \<Rightarrow> string \<Rightarrow> string \<Rightarrow> FileRecord" where
  "ex_fresh i p c created =
     \<lparr>id' = i, file_path = p, size' = 5, modified_time = 1700000000, checksum = c,
      created_at = created, updated_at = ''2025-01-01T00:00:00.000Z''\<rparr>"

definition ex_synced :: manager where
  "ex_synced =
     \<lparr>db = Some \<lparr>rows = [ex_fresh (Some 2) ''/w/a.txt'' ''sha256:AAAAA'' ''2024-12-31T00:00:00.000Z'',
                         ex_fresh (Some 3) ''/w/sub/b.txt'' ''sha256:BBBBB'' ''2025-01-01T00:00:00.000Z''],
                 seq = 3\<rparr>,
      watcher = None, watchFolder = ''/w'', watchOptions = \<lparr>ignored = None\<rparr>,
      trace = [ReadContent ''/w/a.txt'', ReadContent ''/w/a.txt'',
               Emit (FileUpdated (ex_fresh (Some 2) ''/w/a.txt'' ''sha256:AAAAA'' ''2025-01-01T00:00:00.000Z'')),
               ReadContent ''/w/sub/b.txt'',
               Emit (FileAdded (ex_fresh (Some 3) ''/w/sub/b.txt'' ''sha256:BBBBB'' ''2025-01-01T00:00:00.000Z'')),
               Emit (FileRemoved ''/w/gone.txt'')]\<rparr>"

text \<open>A database that rejects the \<^verbatim>\<open>DELETE\<close> for \<^verbatim>\<open>/w/gone.txt\<close>; a watch folder
  that holds one file of a given name, an empty table, and the manager after its first
  reconciliation of that folder.\<close>

definition ex_env_delete_fails :: env where
  "ex_env_delete_fails =
     ex_env\<lparr>db_fault := (\<lambda>op. if op = Delete ''/w/gone.txt'' then Some SQLITE_IOERR else None)\<rparr>"

definition ex_env_with :: "string \<Rightarrow> env" where
  "ex_env_with name =
     \<lparr>root = Directory [(name, RegularFile)],
      stat = (\<lambda>p. Inr \<lparr>stats_size = 5, mtime_getTime = 1700000000123\<rparr>),
      readFile = (\<lambda>p. Inr ''AAAAA''),
      sha256_hex = (\<lambda>data. ''sha256:'' @ data),
      now_iso = ''2025-01-01T00:00:00.000Z'',
      db_fault = (\<lambda>_. None)\<rparr>"

definition ex_empty :: manager where
  "ex_empty =
     \<lparr>db = Some \<lparr>rows = [], seq = 0\<rparr>, watcher = None, watchFolder = ''/w'',
      watchOptions = \<lparr>ignored = None\<rparr>, trace = []\<rparr>"

definition ex_synced_with :: "string \<Rightarrow> manager" where
  "ex_synced_with name =
     \<lparr>db = Some \<lparr>rows = [ex_fresh (Some 1) (''/w/'' @ name) ''sha256:AAAAA'' ''2025-01-01T00:00:00.000Z''],
                 seq = 1\<rparr>,
      watcher = None, watchFolder = ''/w'', watchOptions = \<lparr>ignored = None\<rparr>,
      trace = [ReadContent (''/w/'' @ name),
               Emit (FileAdded (ex_fresh (Some 1) (''/w/'' @ name) ''sha256:AAAAA'' ''2025-01-01T00:00:00.000Z''))]\<rparr>"

section \<open>Auxiliary facts\<close>

lemma logged_simps [simp]:
  "db (logged m t) = db m" "watchFolder (logged m t) = watchFolder m"
  "watcher (logged m t) = watcher m" "watchOptions (logged m t) = watchOptions m"
  "trace (logged m t) = trace m @ t"
  "logged (logged m t) u = logged m (t @ u)"
  "logged m [] = m"
  by (simp_all add: logged_def)

lemma logged_eq [simp]:
  "(logged m t = logged m u) = (t = u)" "(m = logged m t) = (t = [])" "(logged m t = m) = (t = [])"
proof -
  have a: "t = u" if "logged m t = logged m u" for t u
  proof -
    from that have "trace (logged m t) = trace (logged m u)" by (rule arg_cong)
    then show ?thesis by simp
  qed
  then show "(logged m t = logged m u) = (t = u)" by blast
  from a[of t "[]"] show "(m = logged m t) = (t = [])" by (auto simp del: logged_simps simp: logged_simps(7))
  from a[of t "[]"] show "(logged m t = m) = (t = [])" by (auto simp del: logged_simps simp: logged_simps(7))
qed

lemma to_logged:
  "console_error e m = logged m [ConsoleError e]" "emit ev m = logged m [Emit ev]"
  "m\<lparr>trace := trace m @ t\<rparr> = logged m t"
  by (simp_all add: console_error_def emit_def logged_def)

lemma logged_db_update: "logged (m\<lparr>db := x\<rparr>) t = (logged m t)\<lparr>db := x\<rparr>"
  by (simp add: logged_def)

lemma scan_listable:
  "listable node \<Longrightarrow> scanDirectory dp node m = (Inr (files_below dp node), m)"
  "entries_listable es \<Longrightarrow> scanEntries dp es acc m = (Inr (acc @ files_in dp es), m)"
proof (induction dp node m and dp es acc m rule: scanDirectory_scanEntries.induct)
  case (6 dirPath name node rest files m)
  then show ?case by (cases "isDirectory node") auto
qed auto

lemma scan_unlistable:
  "\<not> listable node \<Longrightarrow>
     \<exists>e t. scanDirectory dp node m = (Inl e, logged m t) \<and> t \<noteq> [] \<and> list_all is_error t"
  "\<not> entries_listable es \<Longrightarrow>
     \<exists>e t. scanEntries dp es acc m = (Inl e, logged m t) \<and> t \<noteq> [] \<and> list_all is_error t"
proof (induction dp node m and dp es acc m rule: scanDirectory_scanEntries.induct)
  case (1 dirPath entries m)
  then obtain e t where "scanEntries dirPath entries [] m = (Inl e, logged m t)" "list_all is_error t"
    by auto
  then show ?case
    by (auto simp: to_logged)
next
  case (6 dirPath name node rest files m)
  show ?case
  proof (cases "isDirectory node")
    case True
    show ?thesis
    proof (cases "listable node")
      case l: True
      with True "6.prems" have nl: "\<not> entries_listable rest" by simp
      have a: "scanDirectory (path_join dirPath name) node m = (Inr (files_below (path_join dirPath name) node), m)"
        using scan_listable(1)[OF l] .
      from "6.IH"(2)[OF True a[symmetric] refl nl] show ?thesis using True a by simp
    next
      case False
      from "6.IH"(1)[OF True False] show ?thesis using True by auto
    qed
  next
    case False
    then show ?thesis using "6.IH"(3,4) "6.prems" by (auto split: if_splits)
  qed
qed (auto simp: to_logged)

lemma create_ok:
  assumes "createFileRecord E p m = (Inr r, m')"
  shows "m' = logged m [ReadContent p]" "file_path r = p" "unchanged E p r" "id' r = None"
  using assms
  by (auto simp: createFileRecord_def calculateChecksum_def unchanged_def to_logged Let_def
      split: sum.splits prod.splits)

lemma create_fail:
  assumes "createFileRecord E p m = (Inl e, m')"
  shows "\<exists>t. m' = logged m t \<and> list_all (\<lambda>x. \<not> is_emit x) t \<and> list_ex is_error t"
    and "stat E p = Inl e \<or> readFile E p = Inl e"
  using assms
  by (auto simp: createFileRecord_def calculateChecksum_def to_logged Let_def
      split: sum.splits prod.splits)

lemma changed_iff: "fst (hasFileChanged E p r m) = (\<not> unchanged E p r)"
  by (auto simp: hasFileChanged_def calculateChecksum_def unchanged_def Let_def
      split: sum.splits prod.splits)

lemma changed_state:
  "\<exists>t. snd (hasFileChanged E p r m) = logged m t \<and> list_all (\<lambda>x. \<not> is_emit x) t \<and>
       (unchanged E p r \<longrightarrow> t = [ReadContent p]) \<and>
       (list_ex is_error t \<longrightarrow> (\<exists>e. stat E p = Inl e \<or> readFile E p = Inl e))"
  by (auto simp: hasFileChanged_def calculateChecksum_def unchanged_def Let_def to_logged
      split: sum.splits prod.splits)

lemma insert_ok:
  assumes "insertFileRecord E r m = (Inr u, m')" "db m = Some d"
  shows "file_path r \<notin> set (paths d)" "db_fault E (Insert (file_path r)) = None"
    "m' = logged (m\<lparr>db := Some (d\<lparr>rows := rows d @ [r\<lparr>id' := Some (Suc (seq d))\<rparr>], seq := Suc (seq d)\<rparr>)\<rparr>)
            [Emit (FileAdded (r\<lparr>id' := Some (Suc (seq d))\<rparr>))]"
  using assms
  by (auto simp: insertFileRecord_def paths_def to_logged logged_db_update Let_def
      split: option.splits if_splits)

lemma insert_fail:
  assumes "insertFileRecord E r m = (Inl e, m')"
  shows "\<exists>t. m' = logged m t \<and> list_all (\<lambda>x. \<not> is_emit x) t"
  using assms
  by (auto simp: insertFileRecord_def to_logged Let_def
      split: option.splits if_splits)

lemma update_ok:
  assumes "updateFileRecord E r m = (Inr u, m')" "db m = Some d"
  shows "db_fault E (Update (file_path r)) = None" "u = r"
    "m' = logged (m\<lparr>db := Some (d\<lparr>rows := map (set_columns r) (rows d)\<rparr>)\<rparr>) [Emit (FileUpdated r)]"
  using assms
  by (auto simp: updateFileRecord_def to_logged logged_db_update split: option.splits)

lemma update_fail:
  assumes "updateFileRecord E r m = (Inl e, m')"
  shows "\<exists>t. m' = logged m t \<and> list_all (\<lambda>x. \<not> is_emit x) t"
  using assms
  by (auto simp: updateFileRecord_def to_logged
      split: option.splits)

lemma remove_ok:
  assumes "removeFileRecord E q m = (Inr u, m')" "db m = Some d"
  shows "db_fault E (Delete q) = None"
    "m' = logged (m\<lparr>db := Some (d\<lparr>rows := filter (\<lambda>row. file_path row \<noteq> q) (rows d)\<rparr>)\<rparr>)
            [Emit (FileRemoved q)]"
  using assms
  by (auto simp: removeFileRecord_def to_logged logged_db_update split: option.splits)

lemma remove_fail:
  assumes "removeFileRecord E q m = (Inl e, m')"
  shows "\<exists>t. m' = logged m t \<and> list_all (\<lambda>x. \<not> is_emit x) t"
  using assms
  by (auto simp: removeFileRecord_def to_logged
      split: option.splits)

lemma fold_set_distinct:
  "distinct (map file_path rs) \<Longrightarrow> file_path ` set rs \<inter> fst ` set acc = {} \<Longrightarrow>
   fold (\<lambda>row recordMap. AList.update (file_path row) row recordMap) rs acc = acc @ as_map rs"
proof (induction rs arbitrary: acc)
  case Nil
  then show ?case by (simp add: as_map_def)
next
  case (Cons r rs)
  have u: "AList.update (file_path r) r acc = acc @ [(file_path r, r)]"
    using Cons.prems(2) by (induction acc) auto
  have "fold (\<lambda>row recordMap. AList.update (file_path row) row recordMap) rs (acc @ [(file_path r, r)])
        = (acc @ [(file_path r, r)]) @ as_map rs"
    using Cons.prems by (intro Cons.IH) auto
  then show ?case by (simp add: u as_map_def)
qed

lemma getAll_ok:
  assumes "getAllFileRecords E m = (Inr recs, m')"
  shows "m' = m" "db_fault E SelectAll = None"
    "\<exists>d. db m = Some d \<and> (distinct (paths d) \<longrightarrow> recs = as_map (rows d))"
  using assms fold_set_distinct[of _ "[]"]
  by (auto simp: getAllFileRecords_def paths_def split: option.splits)

lemma getAll_fail:
  assumes "getAllFileRecords E m = (Inl e, m')"
  shows "\<exists>t. m' = logged m t \<and> list_all (\<lambda>x. \<not> is_emit x) t"
  using assms by (auto simp: getAllFileRecords_def to_logged split: option.splits)

lemma map_of_as_map:
  "distinct (map file_path rs) \<Longrightarrow> (map_of (as_map rs) p = Some r) = (r \<in> set rs \<and> file_path r = p)"
proof -
  assume d: "distinct (map file_path rs)"
  have "distinct (map fst (as_map rs))" using d by (simp add: as_map_def comp_def)
  then have "(map_of (as_map rs) p = Some r) = ((p, r) \<in> set (as_map rs))" by simp
  then show ?thesis by (auto simp: as_map_def)
qed

lemma map_of_as_map_None: "(map_of (as_map rs) p = None) = (p \<notin> file_path ` set rs)"
  by (auto simp: as_map_def map_of_eq_None_iff image_image)

lemma set_columns_path [simp]: "file_path (set_columns r row) = file_path row"
  by (simp add: set_columns_def)

lemma set_columns_unchanged:
  "unchanged E (file_path r) r \<Longrightarrow> file_path row = file_path r \<Longrightarrow>
   unchanged E (file_path row) (set_columns r row)"
  by (simp add: set_columns_def unchanged_def split: sum.splits)

lemma set_columns_other: "file_path row \<noteq> file_path r \<Longrightarrow> set_columns r row = row"
  by (simp add: set_columns_def)

lemma unchanged_id [simp]: "unchanged E p (r\<lparr>id' := i\<rparr>) = unchanged E p r"
  by (simp add: unchanged_def split: sum.splits)

lemma syncFile_ok:
  assumes ok: "syncFile E (as_map rows0) p m = (Inr u, m')"
    and d: "db m = Some d" and inv: "loop_invariant E rows0 P d" and dist: "distinct (map file_path rows0)"
  shows "\<exists>d' t. m' = logged (m\<lparr>db := Some d'\<rparr>) t \<and> list_all (\<lambda>x. \<not> is_error x) t \<and>
           loop_invariant E rows0 (insert p P) d'"
proof (cases "map_of (as_map rows0) p")
  case None
  from ok None obtain r m1 where c: "createFileRecord E p m = (Inr r, m1)"
    and i: "insertFileRecord E r m1 = (Inr u, m')"
    by (auto simp: syncFile_def split: prod.splits sum.splits)
  note cr = create_ok[OF c]
  have d1: "db m1 = Some d" using cr(1) d by simp
  note ir = insert_ok[OF i d1]
  let ?r = "r\<lparr>id' := Some (Suc (seq d))\<rparr>"
  let ?d = "d\<lparr>rows := rows d @ [?r], seq := Suc (seq d)\<rparr>"
  have m': "m' = logged (m\<lparr>db := Some ?d\<rparr>) [ReadContent p, Emit (FileAdded ?r)]"
    using ir(3) cr(1) by (simp add: logged_db_update)
  have pnew: "p \<notin> set (paths d)" using ir(1) cr(2) by simp
  have others: "file_path row \<noteq> p" if "row \<in> set (rows d)" for row
    using pnew that by (auto simp: paths_def)
  have "loop_invariant E rows0 (insert p P) ?d"
    unfolding loop_invariant_def
  proof (intro conjI ballI)
    show "distinct (paths ?d)" using inv pnew cr(2) by (simp add: loop_invariant_def paths_def)
    show "set (paths ?d) = file_path ` set rows0 \<union> insert p P"
      using inv cr(2) by (auto simp: loop_invariant_def paths_def)
    fix row assume "row \<in> set (rows ?d)"
    then consider "row = ?r" | "row \<in> set (rows d)" by auto
    then show "if file_path row \<in> insert p P then unchanged E (file_path row) row else row \<in> set rows0"
    proof cases
      case 1
      then show ?thesis using cr(2,3) by simp
    next
      case 2
      then show ?thesis using inv others[OF 2] by (auto simp: loop_invariant_def split: if_splits)
    qed
  qed
  then show ?thesis using m' by (intro exI[of _ ?d] exI[of _ "[ReadContent p, Emit (FileAdded ?r)]"]) simp
next
  case (Some r0)
  then have r0: "r0 \<in> set rows0" "file_path r0 = p" using map_of_as_map[OF dist] by auto
  obtain c m1 where h: "hasFileChanged E p r0 m = (c, m1)" by (cases "hasFileChanged E p r0 m")
  from changed_iff[of E p r0 m] h have c: "c = (\<not> unchanged E p r0)" by simp
  from changed_state[of E p r0 m] h obtain t1 where t1: "m1 = logged m t1"
    "unchanged E p r0 \<longrightarrow> t1 = [ReadContent p]"
    "list_ex is_error t1 \<longrightarrow> (\<exists>e. stat E p = Inl e \<or> readFile E p = Inl e)" by auto
  show ?thesis
  proof (cases c)
    case False
    then have un: "unchanged E p r0" using c by simp
    from ok Some h False have m': "m' = m1" by (simp add: syncFile_def)
    have "loop_invariant E rows0 (insert p P) d"
      unfolding loop_invariant_def
    proof (intro conjI ballI)
      show "distinct (paths d)" using inv by (simp add: loop_invariant_def)
      show "set (paths d) = file_path ` set rows0 \<union> insert p P"
        using inv r0 by (auto simp: loop_invariant_def)
      fix row assume row: "row \<in> set (rows d)"
      from inv row have old: "if file_path row \<in> P then unchanged E (file_path row) row else row \<in> set rows0"
        by (simp add: loop_invariant_def)
      show "if file_path row \<in> insert p P then unchanged E (file_path row) row else row \<in> set rows0"
      proof (cases "file_path row = p \<and> file_path row \<notin> P")
        case True
        with old have "row \<in> set rows0" by (auto split: if_splits)
        with r0 True dist have "row = r0" by (auto simp: distinct_map inj_on_def)
        then show ?thesis using un r0 by simp
      next
        case False
        then show ?thesis using old by auto
      qed
    qed
    then show ?thesis using m' t1 un d
      by (intro exI[of _ d] exI[of _ "[ReadContent p]"]) (simp add: logged_def)
  next
    case True
    from ok Some h True obtain r m2 m3 u' where cr: "createFileRecord E p m1 = (Inr r, m2)"
      and up: "updateFileRecord E (r\<lparr>id' := id' r0\<rparr>) m2 = (Inr u', m3)" and m': "m' = m3"
      by (auto simp: syncFile_def split: prod.splits sum.splits)
    note c1 = create_ok[OF cr]
    have noerr: "\<not> list_ex is_error t1"
      using t1(3) c1(3) by (auto simp: unchanged_def split: sum.splits)
    have d2: "db m2 = Some d" using c1(1) t1(1) d by simp
    note u1 = update_ok[OF up d2]
    let ?r = "r\<lparr>id' := id' r0\<rparr>"
    let ?d = "d\<lparr>rows := map (set_columns ?r) (rows d)\<rparr>"
    have fm: "m' = logged (m\<lparr>db := Some ?d\<rparr>) (t1 @ [ReadContent p, Emit (FileUpdated ?r)])"
      using u1(3) c1(1) t1(1) m' by (simp add: logged_db_update)
    have un: "unchanged E (file_path ?r) ?r" using c1 by simp
    have "loop_invariant E rows0 (insert p P) ?d"
      unfolding loop_invariant_def
    proof (intro conjI ballI)
      show "distinct (paths ?d)" using inv by (simp add: loop_invariant_def paths_def comp_def)
      show "set (paths ?d) = file_path ` set rows0 \<union> insert p P"
        using inv r0 by (auto simp: loop_invariant_def paths_def comp_def)
      fix row assume "row \<in> set (rows ?d)"
      then obtain old where old: "old \<in> set (rows d)" "row = set_columns ?r old" by auto
      show "if file_path row \<in> insert p P then unchanged E (file_path row) row else row \<in> set rows0"
      proof (cases "file_path old = p")
        case True
        then show ?thesis using old set_columns_unchanged[OF un, of old] c1(2) by simp
      next
        case False
        then have "row = old" using old c1(2) by (simp add: set_columns_other)
        then show ?thesis using inv old False by (auto simp: loop_invariant_def split: if_splits)
      qed
    qed
    moreover have "list_all (\<lambda>x. \<not> is_error x) (t1 @ [ReadContent p, Emit (FileUpdated ?r)])"
      using noerr by (simp add: list_all_iff list_ex_iff)
    ultimately show ?thesis using fm by blast
  qed
qed

lemma db_logged: "(logged m t)\<lparr>db := x\<rparr> = logged (m\<lparr>db := x\<rparr>) t"
  by (simp add: logged_def)

lemma db_same: "db m = Some d \<Longrightarrow> m\<lparr>db := Some d\<rparr> = m"
  by (cases m) simp

lemma syncFiles_ok:
  assumes "syncFiles E (as_map rows0) files P m = (Inr P', m')"
    and "db m = Some d" and "loop_invariant E rows0 P d" and dist: "distinct (map file_path rows0)"
  shows "P' = P \<union> set files \<and>
         (\<exists>d' t. m' = logged (m\<lparr>db := Some d'\<rparr>) t \<and> list_all (\<lambda>x. \<not> is_error x) t \<and>
                 loop_invariant E rows0 P' d')"
  using assms(1-3)
proof (induction files arbitrary: P m d)
  case Nil
  then show ?case
    by (auto intro!: exI[of _ d] exI[of _ "[]"] simp: db_same)
next
  case (Cons p files)
  from Cons.prems(1) obtain u m1 where s1: "syncFile E (as_map rows0) p m = (Inr u, m1)"
    and rest: "syncFiles E (as_map rows0) files (insert p P) m1 = (Inr P', m')"
    by (auto split: prod.splits sum.splits)
  from syncFile_ok[OF s1 Cons.prems(2,3) dist] obtain d1 t1 where
    m1: "m1 = logged (m\<lparr>db := Some d1\<rparr>) t1" and e1: "list_all (\<lambda>x. \<not> is_error x) t1"
    and i1: "loop_invariant E rows0 (insert p P) d1" by blast
  have db1: "db m1 = Some d1" using m1 by simp
  from Cons.IH[OF rest db1 i1] obtain d2 t2 where
    P': "P' = insert p P \<union> set files" and m': "m' = logged (m1\<lparr>db := Some d2\<rparr>) t2"
    and e2: "list_all (\<lambda>x. \<not> is_error x) t2" and i2: "loop_invariant E rows0 P' d2" by blast
  have "m' = logged (m\<lparr>db := Some d2\<rparr>) (t1 @ t2)" using m' m1 by (simp add: db_logged)
  moreover have "list_all (\<lambda>x. \<not> is_error x) (t1 @ t2)" using e1 e2 by simp
  moreover have "P' = P \<union> set (p # files)" using P' by auto
  ultimately show ?case using i2 by blast
qed

lemma removeStale_ok:
  assumes "removeStale E qs P m = (Inr u, m')" and "db m = Some d"
  shows "\<exists>t. m' = logged (m\<lparr>db := Some (d\<lparr>rows := filter (\<lambda>r. file_path r \<notin> set qs - P) (rows d)\<rparr>)\<rparr>) t
              \<and> list_all (\<lambda>x. \<not> is_error x) t"
    and "\<forall>q \<in> set qs - P. db_fault E (Delete q) = None"
  using assms
proof (induction qs arbitrary: m d)
  case Nil
  { case 1 then show ?case by (auto intro!: exI[of _ "[]"] simp: db_same) }
  { case 2 then show ?case by simp }
next
  case (Cons q qs)
  {
    case 1
    show ?case
    proof (cases "q \<in> P")
      case True
      with 1 have "removeStale E qs P m = (Inr u, m')" by simp
      from Cons.IH(1)[OF this 1(2)] show ?thesis using True
        by (simp add: insert_Diff_if)
    next
      case False
      with 1 obtain u1 m1 where r: "removeFileRecord E q m = (Inr u1, m1)"
        and rest: "removeStale E qs P m1 = (Inr u, m')"
        by (auto split: prod.splits sum.splits)
      let ?d1 = "d\<lparr>rows := filter (\<lambda>row. file_path row \<noteq> q) (rows d)\<rparr>"
      from remove_ok(2)[OF r 1(2)] have m1: "m1 = logged (m\<lparr>db := Some ?d1\<rparr>) [Emit (FileRemoved q)]" .
      then have db1: "db m1 = Some ?d1" by simp
      from Cons.IH(1)[OF rest db1] obtain t where
        m': "m' = logged (m1\<lparr>db := Some (?d1\<lparr>rows := filter (\<lambda>r. file_path r \<notin> set qs - P) (rows ?d1)\<rparr>)\<rparr>) t"
        and e: "list_all (\<lambda>x. \<not> is_error x) t" by blast
      have f: "filter (\<lambda>r. file_path r \<notin> set qs - P) (filter (\<lambda>row. file_path row \<noteq> q) (rows d))
              = filter (\<lambda>r. file_path r \<notin> set (q # qs) - P) (rows d)"
        using False by (auto intro: filter_cong)
      have "m' = logged (m\<lparr>db := Some (d\<lparr>rows := filter (\<lambda>r. file_path r \<notin> set (q # qs) - P) (rows d)\<rparr>)\<rparr>)
                  (Emit (FileRemoved q) # t)"
        using m' m1 f by (simp add: db_logged)
      then show ?thesis using e by (intro exI[of _ "Emit (FileRemoved q) # t"]) simp
    qed
  }
  {
    case 2
    show ?case
    proof (cases "q \<in> P")
      case True
      with 2 have "removeStale E qs P m = (Inr u, m')" by simp
      from Cons.IH(2)[OF this 2(2)] show ?thesis using True by simp
    next
      case False
      with 2 obtain u1 m1 where r: "removeFileRecord E q m = (Inr u1, m1)"
        and rest: "removeStale E qs P m1 = (Inr u, m')"
        by (auto split: prod.splits sum.splits)
      from remove_ok[OF r 2(2)] have "db_fault E (Delete q) = None" "\<exists>d1. db m1 = Some d1" by simp_all
      then show ?thesis using Cons.IH(2)[OF rest] by auto
    qed
  }
qed

lemma fst_as_map [simp]: "map fst (as_map rs) = map file_path rs"
  by (simp add: as_map_def comp_def)

lemma sync_success:
  assumes ok: "performInitialSync E m = (Inr u, m')" and d: "db m = Some d"
    and dist: "distinct (paths d)"
  shows "listable (root E)" and "db_fault E SelectAll = None"
    and "\<exists>d' t. m' = logged (m\<lparr>db := Some d'\<rparr>) t \<and> list_all (\<lambda>x. \<not> is_error x) t \<and>
           distinct (paths d') \<and> set (paths d') = set (files_below (watchFolder m) (root E)) \<and>
           (\<forall>r \<in> set (rows d'). unchanged E (file_path r) r) \<and>
           (\<forall>q \<in> set (paths d) - set (files_below (watchFolder m) (root E)). db_fault E (Delete q) = None)"
proof -
  let ?files = "files_below (watchFolder m) (root E)"
  from ok have body: "initialSyncBody E m = (Inr u, m')"
    by (auto simp: performInitialSync_def split: prod.splits sum.splits)
  show l: "listable (root E)"
  proof (rule ccontr)
    assume "\<not> listable (root E)"
    from scan_unlistable(1)[OF this, of "watchFolder m" m] body show False
      by (auto simp: initialSyncBody_def)
  qed
  have scan: "scanDirectory (watchFolder m) (root E) m = (Inr ?files, m)"
    using scan_listable(1)[OF l] .
  from body scan obtain recs m2 where g: "getAllFileRecords E m = (Inr recs, m2)"
    by (auto simp: initialSyncBody_def split: prod.splits sum.splits)
  note ga = getAll_ok[OF g]
  show "db_fault E SelectAll = None" by (rule ga(2))
  have recs: "recs = as_map (rows d)" using ga(3) d dist by auto
  from body scan g ga(1) recs obtain P m3 where
    s: "syncFiles E (as_map (rows d)) ?files {} m = (Inr P, m3)"
    and r: "removeStale E (paths d) P m3 = (Inr u, m')"
    by (auto simp: initialSyncBody_def paths_def split: prod.splits sum.splits)
  have i0: "loop_invariant E (rows d) {} d" using dist by (simp add: loop_invariant_def paths_def)
  from syncFiles_ok[OF s d i0] dist obtain d1 t1 where
    P: "P = set ?files" and m3: "m3 = logged (m\<lparr>db := Some d1\<rparr>) t1"
    and e1: "list_all (\<lambda>x. \<not> is_error x) t1" and i1: "loop_invariant E (rows d) (set ?files) d1"
    by (auto simp: paths_def)
  have db3: "db m3 = Some d1" using m3 by simp
  let ?d2 = "d1\<lparr>rows := filter (\<lambda>r. file_path r \<notin> set (paths d) - P) (rows d1)\<rparr>"
  from removeStale_ok[OF r db3] obtain t2 where
    m': "m' = logged (m3\<lparr>db := Some ?d2\<rparr>) t2" and e2: "list_all (\<lambda>x. \<not> is_error x) t2"
    and del: "\<forall>q \<in> set (paths d) - P. db_fault E (Delete q) = None"
    by blast
  have fm: "m' = logged (m\<lparr>db := Some ?d2\<rparr>) (t1 @ t2)" using m' m3 by (simp add: db_logged)
  have e: "list_all (\<lambda>x. \<not> is_error x) (t1 @ t2)" using e1 e2 by simp
  have dd: "distinct (paths ?d2)" using i1 by (simp add: loop_invariant_def paths_def distinct_map_filter)
  have sp: "set (paths ?d2) = set ?files"
    using i1 P by (auto simp: loop_invariant_def paths_def)
  have un: "\<forall>r \<in> set (rows ?d2). unchanged E (file_path r) r"
  proof
    fix r assume a: "r \<in> set (rows ?d2)"
    then have "file_path r \<in> set (paths ?d2)" by (simp add: paths_def)
    then have "file_path r \<in> set ?files" using sp by simp
    moreover have "r \<in> set (rows d1)" using a by simp
    ultimately show "unchanged E (file_path r) r" using i1 by (auto simp: loop_invariant_def split: if_splits)
  qed
  show "\<exists>d' t. m' = logged (m\<lparr>db := Some d'\<rparr>) t \<and> list_all (\<lambda>x. \<not> is_error x) t \<and>
           distinct (paths d') \<and> set (paths d') = set ?files \<and>
           (\<forall>r \<in> set (rows d'). unchanged E (file_path r) r) \<and>
           (\<forall>q \<in> set (paths d) - set ?files. db_fault E (Delete q) = None)"
    using fm e dd sp un del P by blast
qed

lemma syncFile_unchanged:
  assumes "map_of recs p = Some r" and "unchanged E p r"
  shows "syncFile E recs p m = (Inr (), logged m [ReadContent p])"
proof -
  obtain c m1 where h: "hasFileChanged E p r m = (c, m1)" by (cases "hasFileChanged E p r m")
  from changed_iff[of E p r m] h assms(2) have "c = False" by simp
  moreover from changed_state[of E p r m] h assms(2) have "m1 = logged m [ReadContent p]" by auto
  ultimately show ?thesis using h assms(1) by (simp add: syncFile_def)
qed

lemma syncFiles_unchanged:
  assumes "\<forall>p \<in> set files. \<exists>r. map_of recs p = Some r \<and> unchanged E p r"
  shows "syncFiles E recs files P m = (Inr (P \<union> set files), logged m (map ReadContent files))"
  using assms
proof (induction files arbitrary: P m)
  case Nil
  then show ?case by simp
next
  case (Cons p files)
  then obtain r where r: "map_of recs p = Some r" "unchanged E p r" by auto
  have "syncFiles E recs files (insert p P) (logged m [ReadContent p])
        = (Inr (insert p P \<union> set files), logged (logged m [ReadContent p]) (map ReadContent files))"
    using Cons.prems by (intro Cons.IH) simp
  then show ?case using syncFile_unchanged[OF r] by simp
qed

lemma removeStale_none: "set qs \<subseteq> P \<Longrightarrow> removeStale E qs P m = (Inr (), m)"
  by (induction qs) auto

lemma sync_fixed:
  assumes l: "listable (root E)" and d: "db m = Some d" and dist: "distinct (paths d)"
    and sp: "set (paths d) = set (files_below (watchFolder m) (root E))"
    and un: "\<forall>r \<in> set (rows d). unchanged E (file_path r) r"
    and sel: "db_fault E SelectAll = None"
  shows "performInitialSync E m
         = (Inr (), logged m (map ReadContent (files_below (watchFolder m) (root E))))"
proof -
  let ?files = "files_below (watchFolder m) (root E)"
  have scan: "scanDirectory (watchFolder m) (root E) m = (Inr ?files, m)"
    using scan_listable(1)[OF l] .
  have g: "getAllFileRecords E m = (Inr (as_map (rows d)), m)"
    using d sel dist fold_set_distinct[of "rows d" "[]"]
    by (simp add: getAllFileRecords_def paths_def)
  have each: "\<forall>p \<in> set ?files. \<exists>r. map_of (as_map (rows d)) p = Some r \<and> unchanged E p r"
  proof
    fix p assume "p \<in> set ?files"
    then have "p \<in> set (paths d)" using sp by simp
    then obtain r where r: "r \<in> set (rows d)" "file_path r = p" by (auto simp: paths_def)
    then have "map_of (as_map (rows d)) p = Some r"
      using map_of_as_map[of "rows d" p r] dist by (simp add: paths_def)
    then show "\<exists>r. map_of (as_map (rows d)) p = Some r \<and> unchanged E p r" using un r by auto
  qed
  have s: "syncFiles E (as_map (rows d)) ?files {} m = (Inr (set ?files), logged m (map ReadContent ?files))"
    using syncFiles_unchanged[OF each, of "{}" m] by simp
  have r: "removeStale E (map fst (as_map (rows d))) (set ?files) (logged m (map ReadContent ?files))
            = (Inr (), logged m (map ReadContent ?files))"
    using sp by (intro removeStale_none) (simp add: paths_def)
  show ?thesis
    using scan g s r by (simp add: performInitialSync_def initialSyncBody_def)
qed

lemma insert_trace:
  assumes "insertFileRecord E r m = (Inr u, m')"
  shows "db_fault E (Insert (file_path r)) = None" "\<exists>ev. trace m' = trace m @ [Emit ev]"
  using assms
  by (auto simp: insertFileRecord_def emit_def Let_def split: option.splits if_splits)

lemma update_trace:
  assumes "updateFileRecord E r m = (Inr u, m')"
  shows "db_fault E (Update (file_path r)) = None" "\<exists>ev. trace m' = trace m @ [Emit ev]"
  using assms
  by (auto simp: updateFileRecord_def emit_def split: option.splits)

lemma remove_trace:
  assumes "removeFileRecord E q m = (Inr u, m')"
  shows "db_fault E (Delete q) = None" "\<exists>ev. trace m' = trace m @ [Emit ev]"
  using assms
  by (auto simp: removeFileRecord_def emit_def split: option.splits)

text \<open>One path of the first loop: a success logs no error, a failure emits no event
  and leaves the table as it was.\<close>

lemma syncFile_trace:
  assumes "syncFile E recs p m = (res, m')"
  shows "\<exists>t. trace m' = trace m @ t \<and>
           (case res of Inr _ \<Rightarrow> list_all (\<lambda>x. \<not> is_error x) t
            | Inl _ \<Rightarrow> list_all (\<lambda>x. \<not> is_emit x) t \<and> db m' = db m)"
proof (cases "map_of recs p")
  case None
  obtain cr m1 where c: "createFileRecord E p m = (cr, m1)" by (cases "createFileRecord E p m")
  show ?thesis
  proof (cases cr)
    case (Inl e)
    with c None assms have "res = Inl e" "m' = m1" by (auto simp: syncFile_def)
    then show ?thesis using create_fail(1)[OF c[unfolded Inl]] by auto
  next
    case (Inr r)
    note c1 = create_ok[OF c[unfolded Inr]]
    from c None assms Inr have i: "insertFileRecord E r m1 = (res, m')" by (simp add: syncFile_def)
    show ?thesis
    proof (cases res)
      case (Inl e)
      from insert_fail[OF i[unfolded Inl]] obtain t where "m' = logged m1 t"
        "list_all (\<lambda>x. \<not> is_emit x) t" by blast
      then show ?thesis using c1(1) Inl by simp
    next
      case (Inr u)
      from insert_trace(2)[OF i[unfolded Inr]] obtain ev where "trace m' = trace m1 @ [Emit ev]" by blast
      then show ?thesis using c1(1) Inr by simp
    qed
  qed
next
  case (Some r0)
  obtain c m1 where h: "hasFileChanged E p r0 m = (c, m1)" by (cases "hasFileChanged E p r0 m")
  from changed_iff[of E p r0 m] h have c: "c = (\<not> unchanged E p r0)" by simp
  from changed_state[of E p r0 m] h obtain t1 where t1: "m1 = logged m t1"
    "list_all (\<lambda>x. \<not> is_emit x) t1" "unchanged E p r0 \<longrightarrow> t1 = [ReadContent p]"
    "list_ex is_error t1 \<longrightarrow> (\<exists>e. stat E p = Inl e \<or> readFile E p = Inl e)" by auto
  show ?thesis
  proof (cases c)
    case False
    with assms Some h have "res = Inr ()" "m' = m1" by (auto simp: syncFile_def)
    then show ?thesis using t1 c False by simp
  next
    case True
    obtain cr m2 where cr: "createFileRecord E p m1 = (cr, m2)" by (cases "createFileRecord E p m1")
    show ?thesis
    proof (cases cr)
      case (Inl e)
      with cr True Some h assms have "res = Inl e" "m' = m2" by (auto simp: syncFile_def)
      moreover from create_fail(1)[OF cr[unfolded Inl]] obtain t where "m2 = logged m1 t"
        "list_all (\<lambda>x. \<not> is_emit x) t" by blast
      ultimately show ?thesis using t1(1,2) by simp
    next
      case (Inr r)
      note c1 = create_ok[OF cr[unfolded Inr]]
      have noerr: "list_all (\<lambda>x. \<not> is_error x) t1"
        using t1(4) c1(3) by (auto simp: unchanged_def list_all_iff list_ex_iff split: sum.splits)
      obtain ur m3 where u: "updateFileRecord E (r\<lparr>id' := id' r0\<rparr>) m2 = (ur, m3)"
        by (cases "updateFileRecord E (r\<lparr>id' := id' r0\<rparr>) m2")
      show ?thesis
      proof (cases ur)
        case (Inl e)
        with u cr Inr True Some h assms have "res = Inl e" "m' = m3" by (auto simp: syncFile_def)
        moreover from update_fail[OF u[unfolded Inl]] obtain t where "m3 = logged m2 t"
          "list_all (\<lambda>x. \<not> is_emit x) t" by blast
        ultimately show ?thesis using t1(1,2) c1(1) by simp
      next
        case (Inr u')
        with u cr \<open>cr = Inr r\<close> True Some h assms have "res = Inr ()" "m' = m3"
          by (auto simp: syncFile_def)
        moreover from update_trace(2)[OF u[unfolded Inr]] obtain ev where
          "trace m3 = trace m2 @ [Emit ev]" by blast
        ultimately show ?thesis using t1(1) c1(1) noerr by simp
      qed
    qed
  qed
qed

lemma aborts_cleanly_step:
  assumes "list_all (\<lambda>x. \<not> is_error x) t" and "aborts_cleanly u failed"
  shows "aborts_cleanly (t @ u) failed"
proof -
  from assms(2) obtain t1 t2 where "u = t1 @ t2" "list_all (\<lambda>x. \<not> is_error x) t1"
    "list_all (\<lambda>x. \<not> is_emit x) t2" "\<not> failed \<longrightarrow> t2 = []" by (auto simp: aborts_cleanly_def)
  then show ?thesis using assms(1) unfolding aborts_cleanly_def
    by (intro exI[of _ "t @ t1"] exI[of _ t2]) simp
qed

lemma aborts_cleanly_fail: "list_all (\<lambda>x. \<not> is_emit x) t \<Longrightarrow> aborts_cleanly t True"
  unfolding aborts_cleanly_def by (intro exI[of _ "[]"] exI[of _ t]) simp

lemma aborts_cleanly_ok: "list_all (\<lambda>x. \<not> is_error x) t \<Longrightarrow> aborts_cleanly t False"
  unfolding aborts_cleanly_def by (intro exI[of _ t] exI[of _ "[]"]) simp

lemma aborts_cleanly_more:
  assumes "aborts_cleanly t True" and "list_all (\<lambda>x. \<not> is_emit x) u"
  shows "aborts_cleanly (t @ u) True"
proof -
  from assms(1) obtain t1 t2 where "t = t1 @ t2" "list_all (\<lambda>x. \<not> is_error x) t1"
    "list_all (\<lambda>x. \<not> is_emit x) t2" by (auto simp: aborts_cleanly_def)
  then show ?thesis using assms(2) unfolding aborts_cleanly_def
    by (intro exI[of _ t1] exI[of _ "t2 @ u"]) simp
qed

lemma aborts_cleanly_okD: "aborts_cleanly t False \<Longrightarrow> list_all (\<lambda>x. \<not> is_error x) t"
  by (auto simp: aborts_cleanly_def)

lemma syncFiles_trace:
  assumes "syncFiles E recs files P m = (res, m')"
  shows "\<exists>t. trace m' = trace m @ t \<and> aborts_cleanly t (isl res)"
  using assms
proof (induction files arbitrary: P m)
  case Nil
  then show ?case by (auto simp: aborts_cleanly_def)
next
  case (Cons p files)
  obtain r1 m1 where s: "syncFile E recs p m = (r1, m1)" by (cases "syncFile E recs p m")
  from syncFile_trace[OF s] obtain t where t: "trace m1 = trace m @ t"
    "case r1 of Inr _ \<Rightarrow> list_all (\<lambda>x. \<not> is_error x) t
     | Inl _ \<Rightarrow> list_all (\<lambda>x. \<not> is_emit x) t \<and> db m1 = db m" by blast
  show ?case
  proof (cases r1)
    case (Inl e)
    with s Cons.prems have "res = Inl e" "m' = m1" by auto
    then show ?thesis using t Inl by (auto intro: aborts_cleanly_fail)
  next
    case (Inr u)
    with s Cons.prems have "syncFiles E recs files (insert p P) m1 = (res, m')" by simp
    from Cons.IH[OF this] obtain t' where "trace m' = trace m1 @ t'" "aborts_cleanly t' (isl res)"
      by blast
    then show ?thesis using t Inr by (auto intro: aborts_cleanly_step)
  qed
qed

lemma removeStale_trace:
  assumes "removeStale E qs P m = (res, m')"
  shows "\<exists>t. trace m' = trace m @ t \<and> aborts_cleanly t (isl res)"
  using assms
proof (induction qs arbitrary: m)
  case Nil
  then show ?case by (auto simp: aborts_cleanly_def)
next
  case (Cons q qs)
  show ?case
  proof (cases "q \<in> P")
    case True
    with Cons.prems have "removeStale E qs P m = (res, m')" by simp
    from Cons.IH[OF this] show ?thesis .
  next
    case False
    obtain r1 m1 where r: "removeFileRecord E q m = (r1, m1)" by (cases "removeFileRecord E q m")
    show ?thesis
    proof (cases r1)
      case (Inl e)
      with r False Cons.prems have "res = Inl e" "m' = m1" by auto
      moreover from remove_fail[OF r[unfolded Inl]] obtain t where "m1 = logged m t"
        "list_all (\<lambda>x. \<not> is_emit x) t" by blast
      ultimately show ?thesis by (auto intro: aborts_cleanly_fail)
    next
      case (Inr u)
      with r False Cons.prems have "removeStale E qs P m1 = (res, m')" by simp
      from Cons.IH[OF this] obtain t' where t': "trace m' = trace m1 @ t'" "aborts_cleanly t' (isl res)"
        by blast
      from remove_trace(2)[OF r[unfolded Inr]] obtain ev where "trace m1 = trace m @ [Emit ev]" by blast
      then show ?thesis using t' aborts_cleanly_step[of "[Emit ev]" t' "isl res"] by auto
    qed
  qed
qed

lemma body_trace:
  assumes "initialSyncBody E m = (res, m')"
  shows "\<exists>t. trace m' = trace m @ t \<and> aborts_cleanly t (isl res)"
proof (cases "listable (root E)")
  case False
  from scan_unlistable(1)[OF False, of "watchFolder m" m] obtain e t where
    "scanDirectory (watchFolder m) (root E) m = (Inl e, logged m t)" "list_all is_error t" by blast
  with assms have "res = Inl e" "m' = logged m t" by (auto simp: initialSyncBody_def)
  moreover have "list_all (\<lambda>x. \<not> is_emit x) t"
    using \<open>list_all is_error t\<close> by (induction t) (auto elim: is_error.elims)
  ultimately show ?thesis by (auto intro: aborts_cleanly_fail)
next
  case True
  let ?files = "files_below (watchFolder m) (root E)"
  have scan: "scanDirectory (watchFolder m) (root E) m = (Inr ?files, m)"
    using scan_listable(1)[OF True] .
  obtain g m2 where g: "getAllFileRecords E m = (g, m2)" by (cases "getAllFileRecords E m")
  show ?thesis
  proof (cases g)
    case (Inl e)
    with g scan assms have "res = Inl e" "m' = m2" by (auto simp: initialSyncBody_def)
    moreover from getAll_fail[OF g[unfolded Inl]] obtain t where "m2 = logged m t"
      "list_all (\<lambda>x. \<not> is_emit x) t" by blast
    ultimately show ?thesis by (auto intro: aborts_cleanly_fail)
  next
    case (Inr recs)
    have m2: "m2 = m" using getAll_ok(1)[OF g[unfolded Inr]] .
    obtain s m3 where s: "syncFiles E recs ?files {} m = (s, m3)"
      by (cases "syncFiles E recs ?files {} m")
    from syncFiles_trace[OF s] obtain t1 where t1: "trace m3 = trace m @ t1"
      "aborts_cleanly t1 (isl s)" by blast
    show ?thesis
    proof (cases s)
      case (Inl e)
      with s g Inr m2 scan assms have "res = Inl e" "m' = m3" by (auto simp: initialSyncBody_def)
      then show ?thesis using t1 Inl by auto
    next
      case (Inr P)
      with s g \<open>g = Inr recs\<close> m2 scan assms have
        r: "removeStale E (map fst recs) P m3 = (res, m')" by (auto simp: initialSyncBody_def)
      from removeStale_trace[OF r] obtain t2 where "trace m' = trace m3 @ t2"
        "aborts_cleanly t2 (isl res)" by blast
      moreover have "list_all (\<lambda>x. \<not> is_error x) t1" using t1(2) Inr by (auto dest: aborts_cleanly_okD)
      ultimately show ?thesis using t1(1) by (auto intro: aborts_cleanly_step)
    qed
  qed
qed

lemma sync_trace:
  assumes "performInitialSync E m = (res, m')"
  shows "\<exists>t. trace m' = trace m @ t \<and> aborts_cleanly t (isl res) \<and>
             (\<forall>e. res = Inl e \<longrightarrow> t \<noteq> [] \<and> last t = ConsoleError e)"
proof -
  obtain r1 m1 where b: "initialSyncBody E m = (r1, m1)" by (cases "initialSyncBody E m")
  from body_trace[OF b] obtain t where t: "trace m1 = trace m @ t" "aborts_cleanly t (isl r1)" by blast
  show ?thesis
  proof (cases r1)
    case (Inl e)
    with b assms have "res = Inl e" "m' = console_error e m1" by (auto simp: performInitialSync_def)
    moreover have "aborts_cleanly (t @ [ConsoleError e]) True"
      using t(2) Inl by (intro aborts_cleanly_more) auto
    ultimately show ?thesis using t(1) by (auto simp: console_error_def)
  next
    case (Inr u)
    with b assms have "res = Inr u" "m' = m1" by (auto simp: performInitialSync_def)
    then show ?thesis using t Inr by auto
  qed
qed

lemma aborts_cleanly_no_emit_after_error:
  assumes "aborts_cleanly t failed"
  shows "no_emit_after_error t"
proof -
  from assms obtain t1 t2 where t: "t = t1 @ t2" "list_all (\<lambda>x. \<not> is_error x) t1"
    "list_all (\<lambda>x. \<not> is_emit x) t2" by (auto simp: aborts_cleanly_def)
  have base: "no_emit_after_error t2" using t(3) by (induction t2) auto
  have "no_emit_after_error (t1 @ t2)" using t(2) base by (induction t1) auto
  then show ?thesis using t(1) by simp
qed

lemma syncFile_faults:
  assumes "syncFile E recs p m = (Inr u, m')"
  shows "map_of recs p = None \<longrightarrow> db_fault E (Insert p) = None"
    and "\<forall>r. map_of recs p = Some r \<and> \<not> unchanged E p r \<longrightarrow> db_fault E (Update p) = None"
proof -
  show "map_of recs p = None \<longrightarrow> db_fault E (Insert p) = None"
  proof
    assume n: "map_of recs p = None"
    with assms obtain r m1 where c: "createFileRecord E p m = (Inr r, m1)"
      and i: "insertFileRecord E r m1 = (Inr u, m')"
      by (auto simp: syncFile_def split: prod.splits sum.splits)
    from insert_trace(1)[OF i] create_ok(2)[OF c] show "db_fault E (Insert p) = None" by simp
  qed
  show "\<forall>r. map_of recs p = Some r \<and> \<not> unchanged E p r \<longrightarrow> db_fault E (Update p) = None"
  proof (intro allI impI)
    fix r0 assume a: "map_of recs p = Some r0 \<and> \<not> unchanged E p r0"
    obtain c m1 where h: "hasFileChanged E p r0 m = (c, m1)" by (cases "hasFileChanged E p r0 m")
    from changed_iff[of E p r0 m] h a have "c = True" by simp
    with assms a h obtain r m2 u' m3 where cr: "createFileRecord E p m1 = (Inr r, m2)"
      and up: "updateFileRecord E (r\<lparr>id' := id' r0\<rparr>) m2 = (Inr u', m3)"
      by (auto simp: syncFile_def split: prod.splits sum.splits)
    from update_trace(1)[OF up] create_ok(2)[OF cr] show "db_fault E (Update p) = None" by simp
  qed
qed

lemma syncFiles_faults:
  assumes "syncFiles E recs files P m = (Inr P', m')" and "p \<in> set files"
  shows "map_of recs p = None \<longrightarrow> db_fault E (Insert p) = None"
    and "\<forall>r. map_of recs p = Some r \<and> \<not> unchanged E p r \<longrightarrow> db_fault E (Update p) = None"
  using assms
proof (induction files arbitrary: P m)
  case Nil
  { case 1 then show ?case by simp }
  { case 2 then show ?case by simp }
next
  case (Cons q files)
  {
    case 1
    from 1(1) obtain u m1 where s: "syncFile E recs q m = (Inr u, m1)"
      and rest: "syncFiles E recs files (insert q P) m1 = (Inr P', m')"
      by (auto split: prod.splits sum.splits)
    show ?case
    proof (cases "p = q")
      case True
      then show ?thesis using syncFile_faults(1)[OF s] by simp
    next
      case False
      with 1(2) have "p \<in> set files" by simp
      from Cons.IH(1)[OF rest this] show ?thesis .
    qed
  }
  {
    case 2
    from 2(1) obtain u m1 where s: "syncFile E recs q m = (Inr u, m1)"
      and rest: "syncFiles E recs files (insert q P) m1 = (Inr P', m')"
      by (auto split: prod.splits sum.splits)
    show ?case
    proof (cases "p = q")
      case True
      then show ?thesis using syncFile_faults(2)[OF s] by simp
    next
      case False
      with 2(2) have "p \<in> set files" by simp
      from Cons.IH(2)[OF rest this] show ?thesis .
    qed
  }
qed

lemma sync_success_faults:
  assumes ok: "performInitialSync E m = (Inr u, m')" and d: "db m = Some d"
    and dist: "distinct (paths d)" and p: "p \<in> set (files_below (watchFolder m) (root E))"
  shows "p \<notin> set (paths d) \<longrightarrow> db_fault E (Insert p) = None"
    and "\<forall>r \<in> set (rows d). file_path r = p \<and> \<not> unchanged E p r \<longrightarrow> db_fault E (Update p) = None"
proof -
  let ?files = "files_below (watchFolder m) (root E)"
  note s0 = sync_success[OF ok d dist]
  from ok have body: "initialSyncBody E m = (Inr u, m')"
    by (auto simp: performInitialSync_def split: prod.splits sum.splits)
  have scan: "scanDirectory (watchFolder m) (root E) m = (Inr ?files, m)"
    using scan_listable(1)[OF s0(1)] .
  have g: "getAllFileRecords E m = (Inr (as_map (rows d)), m)"
    using d s0(2) dist fold_set_distinct[of "rows d" "[]"]
    by (simp add: getAllFileRecords_def paths_def)
  from body scan g obtain P m3 where
    s: "syncFiles E (as_map (rows d)) ?files {} m = (Inr P, m3)"
    by (auto simp: initialSyncBody_def split: prod.splits sum.splits)
  note f = syncFiles_faults[OF s p]
  show "p \<notin> set (paths d) \<longrightarrow> db_fault E (Insert p) = None"
    using f(1) by (simp add: map_of_as_map_None paths_def)
  show "\<forall>r \<in> set (rows d). file_path r = p \<and> \<not> unchanged E p r \<longrightarrow> db_fault E (Update p) = None"
    using f(2) map_of_as_map[of "rows d" p] dist by (auto simp: paths_def)
qed

lemma sync_steps:
  assumes ok: "performInitialSync E m = (Inr u, m')" and d: "db m = Some d"
    and dist: "distinct (paths d)"
  shows "\<exists>m3. syncFiles E (as_map (rows d)) (files_below (watchFolder m) (root E)) {} m
                = (Inr (set (files_below (watchFolder m) (root E))), m3) \<and>
              removeStale E (paths d) (set (files_below (watchFolder m) (root E))) m3 = (Inr u, m')"
proof -
  let ?files = "files_below (watchFolder m) (root E)"
  note s0 = sync_success[OF ok d dist]
  from ok have body: "initialSyncBody E m = (Inr u, m')"
    by (auto simp: performInitialSync_def split: prod.splits sum.splits)
  have scan: "scanDirectory (watchFolder m) (root E) m = (Inr ?files, m)"
    using scan_listable(1)[OF s0(1)] .
  have g: "getAllFileRecords E m = (Inr (as_map (rows d)), m)"
    using d s0(2) dist fold_set_distinct[of "rows d" "[]"]
    by (simp add: getAllFileRecords_def paths_def)
  from body scan g obtain P m3 where
    s: "syncFiles E (as_map (rows d)) ?files {} m = (Inr P, m3)"
    and r: "removeStale E (paths d) P m3 = (Inr u, m')"
    by (auto simp: initialSyncBody_def paths_def split: prod.splits sum.splits)
  have i0: "loop_invariant E (rows d) {} d" using dist by (simp add: loop_invariant_def paths_def)
  from syncFiles_ok[OF s d i0] dist have "P = set ?files" by (auto simp: paths_def)
  with s r show ?thesis by blast
qed

lemma syncFile_added:
  assumes "syncFile E recs p m = (Inr u, m')" and "map_of recs p = None"
  shows "\<exists>r. file_path r = p \<and> trace m' = trace m @ [ReadContent p, Emit (FileAdded r)]"
proof -
  from assms obtain r m1 where c: "createFileRecord E p m = (Inr r, m1)"
    and i: "insertFileRecord E r m1 = (Inr u, m')"
    by (auto simp: syncFile_def split: prod.splits sum.splits)
  note c1 = create_ok[OF c]
  from i obtain k where "trace m' = trace m1 @ [Emit (FileAdded (r\<lparr>id' := k\<rparr>))]"
    by (auto simp: insertFileRecord_def emit_def Let_def split: option.splits if_splits)
  then have "trace m' = trace m @ [ReadContent p, Emit (FileAdded (r\<lparr>id' := k\<rparr>))]"
    using c1(1) by simp
  moreover have "file_path (r\<lparr>id' := k\<rparr>) = p" using c1(2) by simp
  ultimately show ?thesis by blast
qed

lemma syncFiles_added:
  assumes "syncFiles E recs files P m = (Inr P', m')"
  shows "\<exists>t. trace m' = trace m @ t \<and>
             (\<forall>p \<in> set files. map_of recs p = None \<longrightarrow>
                (\<exists>r. file_path r = p \<and> Emit (FileAdded r) \<in> set t))"
  using assms
proof (induction files arbitrary: P m)
  case Nil
  then show ?case by simp
next
  case (Cons q files)
  from Cons.prems obtain u m1 where s: "syncFile E recs q m = (Inr u, m1)"
    and rest: "syncFiles E recs files (insert q P) m1 = (Inr P', m')"
    by (auto split: prod.splits sum.splits)
  from syncFile_trace[OF s] obtain t1 where t1: "trace m1 = trace m @ t1" by blast
  from Cons.IH[OF rest] obtain t2 where t2: "trace m' = trace m1 @ t2"
    and a2: "\<forall>p \<in> set files. map_of recs p = None \<longrightarrow>
                (\<exists>r. file_path r = p \<and> Emit (FileAdded r) \<in> set t2)" by blast
  have q: "map_of recs q = None \<longrightarrow> (\<exists>r. file_path r = q \<and> Emit (FileAdded r) \<in> set t1)"
  proof
    assume "map_of recs q = None"
    from syncFile_added[OF s this] t1 show "\<exists>r. file_path r = q \<and> Emit (FileAdded r) \<in> set t1"
      by auto
  qed
  have "trace m' = trace m @ (t1 @ t2)" using t1 t2 by simp
  moreover have "\<forall>p \<in> set (q # files). map_of recs p = None \<longrightarrow>
                (\<exists>r. file_path r = p \<and> Emit (FileAdded r) \<in> set (t1 @ t2))"
    using q a2 by auto
  ultimately show ?case by blast
qed

lemma removeStale_removed:
  assumes "removeStale E qs P m = (Inr u, m')"
  shows "\<exists>t. trace m' = trace m @ t \<and> (\<forall>q \<in> set qs - P. Emit (FileRemoved q) \<in> set t)"
  using assms
proof (induction qs arbitrary: m)
  case Nil
  then show ?case by simp
next
  case (Cons q qs)
  show ?case
  proof (cases "q \<in> P")
    case True
    with Cons.prems have "removeStale E qs P m = (Inr u, m')" by simp
    from Cons.IH[OF this] show ?thesis using True by auto
  next
    case False
    with Cons.prems obtain u1 m1 where r: "removeFileRecord E q m = (Inr u1, m1)"
      and rest: "removeStale E qs P m1 = (Inr u, m')"
      by (auto split: prod.splits sum.splits)
    from r have t1: "trace m1 = trace m @ [Emit (FileRemoved q)]"
      by (auto simp: removeFileRecord_def emit_def split: option.splits)
    from Cons.IH[OF rest] obtain t2 where t2: "trace m' = trace m1 @ t2"
      "\<forall>q \<in> set qs - P. Emit (FileRemoved q) \<in> set t2" by blast
    have "trace m' = trace m @ (Emit (FileRemoved q) # t2)" using t1 t2(1) by simp
    moreover have "\<forall>x \<in> set (q # qs) - P. Emit (FileRemoved x) \<in> set (Emit (FileRemoved q) # t2)"
      using t2(2) by auto
    ultimately show ?thesis by blast
  qed
qed

subsection \<open>The example run, evaluated\<close>

lemmas ex_defs = ex_env_def ex_manager_def ex_row_def ex_db_def ex_fresh_def ex_synced_def

lemmas run_defs = performInitialSync_def initialSyncBody_def getAllFileRecords_def syncFile_def
  hasFileChanged_def createFileRecord_def calculateChecksum_def insertFileRecord_def
  updateFileRecord_def removeFileRecord_def console_error_def emit_def path_join_def set_columns_def
  Let_def

lemma ex_scan:
  "scanDirectory ''/w'' (root ex_env) m = (Inr [''/w/a.txt'', ''/w/sub/b.txt''], m)"
  by (simp add: ex_env_def path_join_def)

lemma ex_sync: "performInitialSync ex_env ex_manager = (Inr (), ex_synced)"
  by (simp add: ex_defs run_defs)

lemma ex_db_distinct: "distinct (map file_path (rows ex_db))"
  by (simp add: ex_defs)

section \<open>The claims\<close>

subsection \<open>C1: an add event for an untracked path\<close>

text \<open>
  The handler inserts only when \<^verbatim>\<open>#updateFileRecord\<close> throws, and an \<^verbatim>\<open>UPDATE\<close> that
  matches no row does not throw: whenever the file can be inspected and the statement
  runs, the handler ends with the update, whether the table has a row for the path or
  not.
\<close>

lemma handleFileAddOrChange_update_only:
  assumes "createFileRecord E p m = (Inr r, m1)" and "db m = Some d"
    and "db_fault E (Update p) = None"
  shows "handleFileAddOrChange E p m
         = emit (FileUpdated r) (m1\<lparr>db := Some (d\<lparr>rows := map (set_columns r) (rows d)\<rparr>)\<rparr>)"
    and "p \<notin> set (map file_path (rows d)) \<Longrightarrow> map (set_columns r) (rows d) = rows d"
proof -
  note c = create_ok[OF assms(1)]
  have "db m1 = Some d" using c(1) assms(2) by simp
  then show "handleFileAddOrChange E p m
         = emit (FileUpdated r) (m1\<lparr>db := Some (d\<lparr>rows := map (set_columns r) (rows d)\<rparr>)\<rparr>)"
    using assms c(2) by (simp add: handleFileAddOrChange_def updateFileRecord_def)
  show "map (set_columns r) (rows d) = rows d" if "p \<notin> set (map file_path (rows d))"
  proof (intro map_idI set_columns_other)
    fix x assume "x \<in> set (rows d)"
    then have "file_path x \<in> set (map file_path (rows d))" by simp
    with that show "file_path x \<noteq> file_path r" using c(2) by metis
  qed
qed

text \<open>
  C1. The claim fails on the code. The table of the example has no row for
  \<^verbatim>\<open>/w/sub/b.txt\<close>; the add event for it leaves the table as it is and emits
  \<^verbatim>\<open>file.updated\<close>: no insert takes place.
\<close>

theorem add_event_for_untracked_path_inserts_nothing:
  "''/w/sub/b.txt'' \<notin> set (map file_path (rows ex_db)) \<and>
   deliver ex_env (Add ''/w/sub/b.txt'') (startWatching ex_manager)
     = (None, (startWatching ex_manager)
          \<lparr>trace := [ReadContent ''/w/sub/b.txt'',
                      Emit (FileUpdated (ex_fresh None ''/w/sub/b.txt'' ''sha256:BBBBB''
                                           ''2025-01-01T00:00:00.000Z''))]\<rparr>) \<and>
   db (snd (deliver ex_env (Add ''/w/sub/b.txt'') (startWatching ex_manager))) = Some ex_db"
  by (simp add: ex_defs run_defs deliver_def reported_def listener_def startWatching_def
      spread_def defaultOptions_def ignore_dotfiles_def handleFileAddOrChange_def
      line_terminator_at_def)

subsection \<open>C2: completeness of the full reconciliation\<close>

text \<open>
  C2. When \<^verbatim>\<open>performInitialSync\<close> completes successfully, from a table that respects
  \<^verbatim>\<open>file_path UNIQUE\<close>, the table holds exactly one row for every path the scan
  enumerated and no row for any other path. During the pass a row was inserted
  (\<^verbatim>\<open>file.added\<close>) for every scanned path the table did not have, and the row of every
  path that was not scanned was deleted (\<^verbatim>\<open>file.removed\<close>).
\<close>

theorem initial_sync_complete:
  assumes "performInitialSync E m = (Inr u, m')" and "db m = Some d"
    and "distinct (map file_path (rows d))"
  shows "\<exists>files d' t. scanDirectory (watchFolder m) (root E) m = (Inr files, m) \<and>
           db m' = Some d' \<and> distinct (map file_path (rows d')) \<and>
           set (map file_path (rows d')) = set files \<and>
           trace m' = trace m @ t \<and>
           (\<forall>p \<in> set files. p \<notin> set (map file_path (rows d)) \<longrightarrow>
              (\<exists>r. file_path r = p \<and> Emit (FileAdded r) \<in> set t)) \<and>
           (\<forall>q \<in> set (map file_path (rows d)). q \<notin> set files \<longrightarrow> Emit (FileRemoved q) \<in> set t)"
proof -
  let ?files = "files_below (watchFolder m) (root E)"
  have dist: "distinct (paths d)" using assms(3) by (simp add: paths_def)
  note s = sync_success[OF assms(1,2) dist]
  from s(3) obtain d' where d': "db m' = Some d'" "distinct (paths d')" "set (paths d') = set ?files"
    by auto
  have scan: "scanDirectory (watchFolder m) (root E) m = (Inr ?files, m)"
    using scan_listable(1)[OF s(1)] .
  from sync_steps[OF assms(1,2) dist] obtain m3 where
    l1: "syncFiles E (as_map (rows d)) ?files {} m = (Inr (set ?files), m3)"
    and l2: "removeStale E (paths d) (set ?files) m3 = (Inr u, m')" by blast
  from syncFiles_added[OF l1] obtain t1 where t1: "trace m3 = trace m @ t1"
    and added: "\<forall>p \<in> set ?files. map_of (as_map (rows d)) p = None \<longrightarrow>
                (\<exists>r. file_path r = p \<and> Emit (FileAdded r) \<in> set t1)" by blast
  from removeStale_removed[OF l2] obtain t2 where t2: "trace m' = trace m3 @ t2"
    and removed: "\<forall>q \<in> set (paths d) - set ?files. Emit (FileRemoved q) \<in> set t2" by blast
  have tr: "trace m' = trace m @ (t1 @ t2)" using t1 t2 by simp
  have a: "\<forall>p \<in> set ?files. p \<notin> set (map file_path (rows d)) \<longrightarrow>
              (\<exists>r. file_path r = p \<and> Emit (FileAdded r) \<in> set (t1 @ t2))"
    using added by (auto simp: map_of_as_map_None)
  have r: "\<forall>q \<in> set (map file_path (rows d)). q \<notin> set ?files \<longrightarrow> Emit (FileRemoved q) \<in> set (t1 @ t2)"
    using removed by (auto simp: paths_def)
  from scan d' tr a r show ?thesis unfolding paths_def by blast
qed

text \<open>The watch folder \<^verbatim>\<open>/w\<close> holds \<^verbatim>\<open>a.txt\<close> and \<^verbatim>\<open>sub/b.txt\<close>; the table knows
  \<^verbatim>\<open>a.txt\<close> with another checksum and \<^verbatim>\<open>gone.txt\<close>, which no longer exists.\<close>

theorem initial_sync_complete_witness:
  "performInitialSync ex_env ex_manager = (Inr (), ex_synced) \<and> db ex_manager = Some ex_db \<and>
   distinct (map file_path (rows ex_db)) \<and>
   (\<exists>d'. db ex_synced = Some d' \<and> distinct (map file_path (rows d')) \<and>
         set (map file_path (rows d')) = {''/w/a.txt'', ''/w/sub/b.txt''}) \<and>
   (\<exists>r. file_path r = ''/w/sub/b.txt'' \<and> Emit (FileAdded r) \<in> set (trace ex_synced)) \<and>
   Emit (FileRemoved ''/w/gone.txt'') \<in> set (trace ex_synced)"
proof -
  have d: "db ex_manager = Some ex_db" by (simp add: ex_manager_def)
  from initial_sync_complete[OF ex_sync d ex_db_distinct] obtain files d' t where
    f: "scanDirectory (watchFolder ex_manager) (root ex_env) ex_manager = (Inr files, ex_manager)"
    and r: "db ex_synced = Some d'" "distinct (map file_path (rows d'))"
      "set (map file_path (rows d')) = set files"
    and t: "trace ex_synced = trace ex_manager @ t"
    and a: "\<forall>p \<in> set files. p \<notin> set (map file_path (rows ex_db)) \<longrightarrow>
              (\<exists>r. file_path r = p \<and> Emit (FileAdded r) \<in> set t)"
    and g: "\<forall>q \<in> set (map file_path (rows ex_db)). q \<notin> set files \<longrightarrow> Emit (FileRemoved q) \<in> set t"
    by blast
  have "watchFolder ex_manager = ''/w''" by (simp add: ex_manager_def)
  with f ex_scan[of ex_manager] have files: "files = [''/w/a.txt'', ''/w/sub/b.txt'']" by simp
  have tt: "set t = set (trace ex_synced)" using t by (simp add: ex_manager_def)
  from r files have 1: "\<exists>d'. db ex_synced = Some d' \<and> distinct (map file_path (rows d')) \<and>
         set (map file_path (rows d')) = {''/w/a.txt'', ''/w/sub/b.txt''}" by auto
  have "''/w/sub/b.txt'' \<in> set files" "''/w/sub/b.txt'' \<notin> set (map file_path (rows ex_db))"
    using files by (simp_all add: ex_db_def ex_row_def)
  with a tt have 2: "\<exists>r. file_path r = ''/w/sub/b.txt'' \<and> Emit (FileAdded r) \<in> set (trace ex_synced)"
    by blast
  have "''/w/gone.txt'' \<in> set (map file_path (rows ex_db))" "''/w/gone.txt'' \<notin> set files"
    using files by (simp_all add: ex_db_def ex_row_def)
  with g tt have 3: "Emit (FileRemoved ''/w/gone.txt'') \<in> set (trace ex_synced)" by blast
  show ?thesis using ex_sync d ex_db_distinct 1 2 3 by blast
qed

subsection \<open>C3: the change detector compares cheaply first\<close>

text \<open>
  C3. With the file's current size and modification time at hand, \<^verbatim>\<open>#hasFileChanged\<close>
  answers true at once, without reading the content, when the size or the whole-second
  modification time differs from the stored record's; when both are equal it reads the
  content, and answers true exactly when the fresh checksum differs from the stored one.
\<close>

theorem hasFileChanged_cheap_first:
  assumes "stat E p = Inr st"
  shows "(stats_size st \<noteq> size' r \<or> mtime_getTime st div 1000 \<noteq> modified_time r
            \<longrightarrow> hasFileChanged E p r m = (True, m)) \<and>
         (stats_size st = size' r \<and> mtime_getTime st div 1000 = modified_time r \<and>
          readFile E p = Inr data
            \<longrightarrow> hasFileChanged E p r m
                  = (sha256_hex E data \<noteq> checksum r, m\<lparr>trace := trace m @ [ReadContent p]\<rparr>))"
proof (intro conjI impI)
  assume "stats_size st \<noteq> size' r \<or> mtime_getTime st div 1000 \<noteq> modified_time r"
  then show "hasFileChanged E p r m = (True, m)"
    using assms by (auto simp: hasFileChanged_def Let_def)
next
  assume "stats_size st = size' r \<and> mtime_getTime st div 1000 = modified_time r \<and>
          readFile E p = Inr data"
  then show "hasFileChanged E p r m
             = (sha256_hex E data \<noteq> checksum r, m\<lparr>trace := trace m @ [ReadContent p]\<rparr>)"
    using assms by (simp add: hasFileChanged_def calculateChecksum_def Let_def)
qed

theorem hasFileChanged_cheap_first_witness:
  "stat ex_env ''/w/a.txt'' = Inr \<lparr>stats_size = 5, mtime_getTime = 1700000000123\<rparr> \<and>
   hasFileChanged ex_env ''/w/a.txt'' ((ex_row 2 ''/w/a.txt'' ''sha256:AAAAA'')\<lparr>size' := 4\<rparr>) ex_manager
     = (True, ex_manager) \<and>
   hasFileChanged ex_env ''/w/a.txt'' (ex_row 2 ''/w/a.txt'' ''sha256:AAAAA'') ex_manager
     = (False, ex_manager\<lparr>trace := [ReadContent ''/w/a.txt'']\<rparr>) \<and>
   hasFileChanged ex_env ''/w/a.txt'' (ex_row 2 ''/w/a.txt'' ''sha256:aaaaa'') ex_manager
     = (True, ex_manager\<lparr>trace := [ReadContent ''/w/a.txt'']\<rparr>)"
proof -
  have s: "stat ex_env ''/w/a.txt'' = Inr \<lparr>stats_size = 5, mtime_getTime = 1700000000123\<rparr>"
    by (simp add: ex_env_def)
  have r: "readFile ex_env ''/w/a.txt'' = Inr ''AAAAA''" by (simp add: ex_env_def)
  have t: "trace ex_manager = []" by (simp add: ex_manager_def)
  have h: "sha256_hex ex_env ''AAAAA'' = ''sha256:AAAAA''" by (simp add: ex_env_def)
  from hasFileChanged_cheap_first[OF s, where r = "(ex_row 2 ''/w/a.txt'' ''sha256:AAAAA'')\<lparr>size' := 4\<rparr>" and m = ex_manager]
  have 1: "hasFileChanged ex_env ''/w/a.txt'' ((ex_row 2 ''/w/a.txt'' ''sha256:AAAAA'')\<lparr>size' := 4\<rparr>) ex_manager
           = (True, ex_manager)" by (simp add: ex_row_def)
  from hasFileChanged_cheap_first[OF s, where r = "ex_row 2 ''/w/a.txt'' ''sha256:AAAAA''" and data = "''AAAAA''" and m = ex_manager]
  have 2: "hasFileChanged ex_env ''/w/a.txt'' (ex_row 2 ''/w/a.txt'' ''sha256:AAAAA'') ex_manager
           = (False, ex_manager\<lparr>trace := [ReadContent ''/w/a.txt'']\<rparr>)"
    using r t h by (simp add: ex_row_def)
  from hasFileChanged_cheap_first[OF s, where r = "ex_row 2 ''/w/a.txt'' ''sha256:aaaaa''" and data = "''AAAAA''" and m = ex_manager]
  have 3: "hasFileChanged ex_env ''/w/a.txt'' (ex_row 2 ''/w/a.txt'' ''sha256:aaaaa'') ex_manager
           = (True, ex_manager\<lparr>trace := [ReadContent ''/w/a.txt'']\<rparr>)"
    using r t h by (simp add: ex_row_def)
  show ?thesis using s 1 2 3 by simp
qed

subsection \<open>C4: idempotence of the full reconciliation\<close>

text \<open>
  C4. A second run of \<^verbatim>\<open>performInitialSync\<close> right after a successful one, on the same
  file system, succeeds and leaves the table as it is; it emits no event (no insert, no
  update, no delete) and only reads each scanned file once for its checksum.
\<close>

theorem initial_sync_idempotent:
  assumes "performInitialSync E m = (Inr u, m1)" and "db m = Some d"
    and "distinct (map file_path (rows d))"
  shows "\<exists>files. scanDirectory (watchFolder m1) (root E) m1 = (Inr files, m1) \<and>
           performInitialSync E m1 = (Inr (), m1\<lparr>trace := trace m1 @ map ReadContent files\<rparr>)"
proof -
  have dist: "distinct (paths d)" using assms(3) by (simp add: paths_def)
  note s = sync_success[OF assms(1,2) dist]
  from s(3) obtain d1 t where m1: "m1 = logged (m\<lparr>db := Some d1\<rparr>) t"
    and d1: "distinct (paths d1)" "set (paths d1) = set (files_below (watchFolder m) (root E))"
    "\<forall>r \<in> set (rows d1). unchanged E (file_path r) r" by blast
  have wf: "watchFolder m1 = watchFolder m" and db1: "db m1 = Some d1" using m1 by simp_all
  have sp: "set (paths d1) = set (files_below (watchFolder m1) (root E))" using d1(2) wf by simp
  have "performInitialSync E m1
        = (Inr (), logged m1 (map ReadContent (files_below (watchFolder m1) (root E))))"
    using sync_fixed[OF s(1) db1 d1(1) sp d1(3) s(2)] .
  moreover have "scanDirectory (watchFolder m1) (root E) m1
                 = (Inr (files_below (watchFolder m1) (root E)), m1)"
    using scan_listable(1)[OF s(1)] .
  ultimately show ?thesis by (auto simp: logged_def)
qed

theorem initial_sync_idempotent_witness:
  "performInitialSync ex_env ex_manager = (Inr (), ex_synced) \<and> db ex_manager = Some ex_db \<and>
   distinct (map file_path (rows ex_db)) \<and>
   performInitialSync ex_env ex_synced
     = (Inr (), ex_synced\<lparr>trace := trace ex_synced @ [ReadContent ''/w/a.txt'', ReadContent ''/w/sub/b.txt'']\<rparr>)"
proof -
  have d: "db ex_manager = Some ex_db" by (simp add: ex_manager_def)
  from initial_sync_idempotent[OF ex_sync d ex_db_distinct] obtain files where
    f: "scanDirectory (watchFolder ex_synced) (root ex_env) ex_synced = (Inr files, ex_synced)"
    and r: "performInitialSync ex_env ex_synced
            = (Inr (), ex_synced\<lparr>trace := trace ex_synced @ map ReadContent files\<rparr>)" by blast
  have "watchFolder ex_synced = ''/w''" by (simp add: ex_synced_def)
  with f ex_scan[of ex_synced] have "files = [''/w/a.txt'', ''/w/sub/b.txt'']" by simp
  with r show ?thesis using ex_sync d ex_db_distinct by simp
qed

subsection \<open>C5: a failed check counts as a change\<close>

text \<open>
  C5. When \<^verbatim>\<open>fs.stat\<close> fails, or the content cannot be read, \<^verbatim>\<open>#hasFileChanged\<close> does
  not throw: it answers true. (Its result has no error component: the \<^verbatim>\<open>catch\<close> of the
  method logs the error and returns.)
\<close>

theorem hasFileChanged_failure_is_change:
  assumes "stat E p = Inl e \<or> readFile E p = Inl e"
  shows "fst (hasFileChanged E p r m) = True \<and>
         db (snd (hasFileChanged E p r m)) = db m \<and>
         (stat E p = Inl e \<longrightarrow> hasFileChanged E p r m = (True, console_error e m))"
proof -
  have "\<not> unchanged E p r" using assms by (auto simp: unchanged_def split: sum.splits)
  then have "fst (hasFileChanged E p r m) = True" by (simp add: changed_iff)
  moreover obtain t where "snd (hasFileChanged E p r m) = logged m t"
    using changed_state[of E p r m] by blast
  then have "db (snd (hasFileChanged E p r m)) = db m" by simp
  moreover have "stat E p = Inl e \<longrightarrow> hasFileChanged E p r m = (True, console_error e m)"
    by (simp add: hasFileChanged_def)
  ultimately show ?thesis by simp
qed

theorem hasFileChanged_failure_is_change_witness:
  "stat ex_env ''/w/gone.txt'' = Inl ENOENT \<and>
   hasFileChanged ex_env ''/w/gone.txt'' (ex_row 1 ''/w/gone.txt'' ''sha256:XXXXX'') ex_manager
     = (True, ex_manager\<lparr>trace := [ConsoleError ENOENT]\<rparr>) \<and>
   readFile (ex_env\<lparr>readFile := \<lambda>p. Inl EACCES\<rparr>) ''/w/a.txt'' = Inl EACCES \<and>
   fst (hasFileChanged (ex_env\<lparr>readFile := \<lambda>p. Inl EACCES\<rparr>) ''/w/a.txt''
          (ex_row 2 ''/w/a.txt'' ''sha256:AAAAA'') ex_manager) = True"
proof -
  have s: "stat ex_env ''/w/gone.txt'' = Inl ENOENT" by (simp add: ex_env_def)
  have r: "readFile (ex_env\<lparr>readFile := \<lambda>p. Inl EACCES\<rparr>) ''/w/a.txt'' = Inl EACCES" by simp
  from hasFileChanged_failure_is_change[where E = ex_env and p = "''/w/gone.txt''" and e = ENOENT
      and r = "ex_row 1 ''/w/gone.txt'' ''sha256:XXXXX''" and m = ex_manager] s
  have 1: "hasFileChanged ex_env ''/w/gone.txt'' (ex_row 1 ''/w/gone.txt'' ''sha256:XXXXX'') ex_manager
           = (True, ex_manager\<lparr>trace := [ConsoleError ENOENT]\<rparr>)"
    by (simp add: console_error_def ex_manager_def)
  from hasFileChanged_failure_is_change[where E = "ex_env\<lparr>readFile := \<lambda>p. Inl EACCES\<rparr>" and p = "''/w/a.txt''"
      and e = EACCES and r = "ex_row 2 ''/w/a.txt'' ''sha256:AAAAA''" and m = ex_manager] r
  have 2: "fst (hasFileChanged (ex_env\<lparr>readFile := \<lambda>p. Inl EACCES\<rparr>) ''/w/a.txt''
          (ex_row 2 ''/w/a.txt'' ''sha256:AAAAA'') ex_manager) = True" by blast
  show ?thesis using s r 1 2 by blast
qed

subsection \<open>C6: the full reconciliation is all or nothing\<close>

text \<open>
  C6. The scan gives the complete list of files when every directory below the watch
  folder can be listed, and otherwise fails: then the pass fails with the scan's error
  and the table is untouched. The pass also fails whenever a scanned file cannot be
  inspected or read, or the insert of a new path, the update of a changed one or the
  delete of a stale one fails. In every run, nothing is emitted (no insert, update or
  delete is carried out) after the first error is logged; a failing pass logs the error
  it returns last.
\<close>

theorem initial_sync_all_or_nothing:
  assumes run: "performInitialSync E m = (res, m')" and d: "db m = Some d"
    and dist: "distinct (map file_path (rows d))"
  shows
   "(listable (root E) \<longrightarrow>
       scanDirectory (watchFolder m) (root E) m = (Inr (files_below (watchFolder m) (root E)), m)) \<and>
    (\<not> listable (root E) \<longrightarrow>
       (\<exists>e. fst (scanDirectory (watchFolder m) (root E) m) = Inl e \<and> res = Inl e) \<and> db m' = db m) \<and>
    ((\<exists>p \<in> set (files_below (watchFolder m) (root E)). isl (stat E p) \<or> isl (readFile E p))
       \<longrightarrow> isl res) \<and>
    ((\<exists>p \<in> set (files_below (watchFolder m) (root E)).
         p \<notin> set (map file_path (rows d)) \<and> db_fault E (Insert p) \<noteq> None) \<longrightarrow> isl res) \<and>
    ((\<exists>r \<in> set (rows d). file_path r \<in> set (files_below (watchFolder m) (root E)) \<and>
         \<not> unchanged E (file_path r) r \<and> db_fault E (Update (file_path r)) \<noteq> None) \<longrightarrow> isl res) \<and>
    ((\<exists>q \<in> set (map file_path (rows d)). q \<notin> set (files_below (watchFolder m) (root E)) \<and>
         db_fault E (Delete q) \<noteq> None) \<longrightarrow> isl res) \<and>
    (\<exists>t. trace m' = trace m @ t \<and> no_emit_after_error t \<and>
         (\<forall>e. res = Inl e \<longrightarrow> t \<noteq> [] \<and> last t = ConsoleError e) \<and>
         (\<forall>u. res = Inr u \<longrightarrow> list_all (\<lambda>x. \<not> is_error x) t))"
proof -
  let ?files = "files_below (watchFolder m) (root E)"
  have dist': "distinct (paths d)" using dist by (simp add: paths_def)
  have scan_ok: "listable (root E) \<longrightarrow> scanDirectory (watchFolder m) (root E) m = (Inr ?files, m)"
    using scan_listable(1) by blast
  have scan_fail: "\<not> listable (root E) \<longrightarrow>
       (\<exists>e. fst (scanDirectory (watchFolder m) (root E) m) = Inl e \<and> res = Inl e) \<and> db m' = db m"
  proof
    assume "\<not> listable (root E)"
    from scan_unlistable(1)[OF this, of "watchFolder m" m] obtain e t where
      sc: "scanDirectory (watchFolder m) (root E) m = (Inl e, logged m t)" by blast
    with run have "res = Inl e" "m' = console_error e (logged m t)"
      by (auto simp: performInitialSync_def initialSyncBody_def)
    then show "(\<exists>e. fst (scanDirectory (watchFolder m) (root E) m) = Inl e \<and> res = Inl e) \<and> db m' = db m"
      using sc by (simp add: console_error_def)
  qed
  have success: "\<not> isl res \<Longrightarrow> \<exists>u. performInitialSync E m = (Inr u, m')"
    using run by (cases res) auto
  have files_read: "(\<exists>p \<in> set ?files. isl (stat E p) \<or> isl (readFile E p)) \<longrightarrow> isl res"
  proof (rule impI, rule ccontr)
    assume bad: "\<exists>p \<in> set ?files. isl (stat E p) \<or> isl (readFile E p)" and "\<not> isl res"
    then obtain u where ok: "performInitialSync E m = (Inr u, m')" using success by blast
    from sync_success(3)[OF ok d dist'] obtain d' where
      sp: "set (paths d') = set ?files" and un: "\<forall>r \<in> set (rows d'). unchanged E (file_path r) r"
      by blast
    from bad obtain p where p: "p \<in> set ?files" "isl (stat E p) \<or> isl (readFile E p)" by blast
    from p(1) sp have "p \<in> file_path ` set (rows d')" by (simp add: paths_def)
    then obtain r where "r \<in> set (rows d')" "file_path r = p" by blast
    with un have "unchanged E p r" by auto
    with p(2) show False by (auto simp: unchanged_def split: sum.splits)
  qed
  have ins: "(\<exists>p \<in> set ?files. p \<notin> set (map file_path (rows d)) \<and> db_fault E (Insert p) \<noteq> None)
       \<longrightarrow> isl res"
  proof (rule impI, rule ccontr)
    assume bad: "\<exists>p \<in> set ?files. p \<notin> set (map file_path (rows d)) \<and> db_fault E (Insert p) \<noteq> None"
      and "\<not> isl res"
    then obtain u where ok: "performInitialSync E m = (Inr u, m')" using success by blast
    from bad obtain p where p: "p \<in> set ?files" "p \<notin> set (paths d)" "db_fault E (Insert p) \<noteq> None"
      by (auto simp: paths_def)
    from sync_success_faults(1)[OF ok d dist' p(1)] p(2,3) show False by simp
  qed
  have upd: "(\<exists>r \<in> set (rows d). file_path r \<in> set ?files \<and>
         \<not> unchanged E (file_path r) r \<and> db_fault E (Update (file_path r)) \<noteq> None) \<longrightarrow> isl res"
  proof (rule impI, rule ccontr)
    assume bad: "\<exists>r \<in> set (rows d). file_path r \<in> set ?files \<and>
         \<not> unchanged E (file_path r) r \<and> db_fault E (Update (file_path r)) \<noteq> None"
      and "\<not> isl res"
    then obtain u where ok: "performInitialSync E m = (Inr u, m')" using success by blast
    from bad obtain r where r: "r \<in> set (rows d)" "file_path r \<in> set ?files"
      "\<not> unchanged E (file_path r) r" "db_fault E (Update (file_path r)) \<noteq> None" by blast
    from sync_success_faults(2)[OF ok d dist' r(2)] r(1,3,4) show False by auto
  qed
  have del: "(\<exists>q \<in> set (map file_path (rows d)). q \<notin> set ?files \<and> db_fault E (Delete q) \<noteq> None)
       \<longrightarrow> isl res"
  proof (rule impI, rule ccontr)
    assume bad: "\<exists>q \<in> set (map file_path (rows d)). q \<notin> set ?files \<and> db_fault E (Delete q) \<noteq> None"
      and "\<not> isl res"
    then obtain u where ok: "performInitialSync E m = (Inr u, m')" using success by blast
    from sync_success(3)[OF ok d dist'] have
      "\<forall>q \<in> set (paths d) - set ?files. db_fault E (Delete q) = None" by blast
    with bad show False by (auto simp: paths_def)
  qed
  have tr: "\<exists>t. trace m' = trace m @ t \<and> no_emit_after_error t \<and>
         (\<forall>e. res = Inl e \<longrightarrow> t \<noteq> [] \<and> last t = ConsoleError e) \<and>
         (\<forall>u. res = Inr u \<longrightarrow> list_all (\<lambda>x. \<not> is_error x) t)"
  proof -
    from sync_trace[OF run] obtain t where t: "trace m' = trace m @ t" "aborts_cleanly t (isl res)"
      "\<forall>e. res = Inl e \<longrightarrow> t \<noteq> [] \<and> last t = ConsoleError e" by blast
    have "\<forall>u. res = Inr u \<longrightarrow> list_all (\<lambda>x. \<not> is_error x) t"
      using t(2) by (auto dest: aborts_cleanly_okD)
    with t aborts_cleanly_no_emit_after_error[OF t(2)] show ?thesis by blast
  qed
  from scan_ok scan_fail files_read ins upd del tr show ?thesis by blast
qed

lemma ex_files: "files_below ''/w'' (root ex_env) = [''/w/a.txt'', ''/w/sub/b.txt'']"
  by (simp add: ex_env_def path_join_def)

text \<open>Two failing runs on the example: the directory \<^verbatim>\<open>sub\<close> cannot be listed; no file
  can be read.\<close>

theorem initial_sync_all_or_nothing_witness:
  "db ex_manager = Some ex_db \<and> distinct (map file_path (rows ex_db)) \<and>
   \<not> listable (Directory [(''a.txt'', RegularFile), (''sub'', UnreadableDirectory EACCES)]) \<and>
   fst (performInitialSync
          (ex_env\<lparr>root := Directory [(''a.txt'', RegularFile), (''sub'', UnreadableDirectory EACCES)]\<rparr>)
          ex_manager) = Inl EACCES \<and>
   db (snd (performInitialSync
          (ex_env\<lparr>root := Directory [(''a.txt'', RegularFile), (''sub'', UnreadableDirectory EACCES)]\<rparr>)
          ex_manager)) = Some ex_db \<and>
   isl (readFile (ex_env\<lparr>readFile := \<lambda>p. Inl EACCES\<rparr>) ''/w/sub/b.txt'') \<and>
   isl (fst (performInitialSync (ex_env\<lparr>readFile := \<lambda>p. Inl EACCES\<rparr>) ex_manager)) \<and>
   no_emit_after_error
     (trace (snd (performInitialSync (ex_env\<lparr>readFile := \<lambda>p. Inl EACCES\<rparr>) ex_manager)))"
proof -
  let ?E1 = "ex_env\<lparr>root := Directory [(''a.txt'', RegularFile), (''sub'', UnreadableDirectory EACCES)]\<rparr>"
  let ?E2 = "ex_env\<lparr>readFile := \<lambda>p. Inl EACCES\<rparr>"
  have d: "db ex_manager = Some ex_db" by (simp add: ex_manager_def)
  have wf: "watchFolder ex_manager = ''/w''" and tr0: "trace ex_manager = []"
    by (simp_all add: ex_manager_def)
  have nl: "\<not> listable (Directory [(''a.txt'', RegularFile), (''sub'', UnreadableDirectory EACCES)])"
    by simp
  obtain r1 m1 where run1: "performInitialSync ?E1 ex_manager = (r1, m1)"
    by (cases "performInitialSync ?E1 ex_manager")
  have sc: "fst (scanDirectory ''/w'' (root ?E1) ex_manager) = Inl EACCES"
    by (simp add: path_join_def)
  from initial_sync_all_or_nothing[OF run1 d ex_db_distinct] nl wf sc
  have 1: "r1 = Inl EACCES" "db m1 = Some ex_db" using d by auto
  obtain r2 m2 where run2: "performInitialSync ?E2 ex_manager = (r2, m2)"
    by (cases "performInitialSync ?E2 ex_manager")
  have f2: "files_below (watchFolder ex_manager) (root ?E2) = [''/w/a.txt'', ''/w/sub/b.txt'']"
    using ex_files wf by simp
  have bad: "isl (readFile ?E2 ''/w/sub/b.txt'')" by simp
  note t2 = initial_sync_all_or_nothing[OF run2 d ex_db_distinct]
  have "\<exists>p \<in> set (files_below (watchFolder ex_manager) (root ?E2)).
          isl (stat ?E2 p) \<or> isl (readFile ?E2 p)"
    unfolding f2 using bad by auto
  with t2 have 2: "isl r2" by blast
  from t2 obtain t where "trace m2 = trace ex_manager @ t" "no_emit_after_error t" by blast
  then have 3: "no_emit_after_error (trace m2)" using tr0 by simp
  show ?thesis using d ex_db_distinct nl bad 1 2 3 run1 run2 by simp
qed

subsection \<open>C7: a failing remove event\<close>

text \<open>The listeners for \<^verbatim>\<open>add\<close> and \<^verbatim>\<open>change\<close> never reject: the handler catches and
  logs. The listener for \<^verbatim>\<open>unlink\<close> hands on the rejection of \<^verbatim>\<open>#removeFileRecord\<close>.\<close>

lemma add_change_never_reject:
  "fst (listener E (Add p) m) = None" "fst (listener E (Change p) m) = None"
  by (simp_all add: listener_def)

lemma unlink_rejects:
  assumes "db m = Some d" and "db_fault E (Delete p) = Some e"
  shows "listener E (Unlink p) m = (Some e, console_error e m)"
  using assms by (simp add: listener_def removeFileRecord_def)

text \<open>
  C7. The claim fails on the code for remove events. When the \<^verbatim>\<open>DELETE\<close> for
  \<^verbatim>\<open>/w/gone.txt\<close> fails, the rejection leaves the listener, the process logs it, shuts
  the manager down and exits; the change event for \<^verbatim>\<open>/w/a.txt\<close> that follows is not
  handled. With a database that works, the same two events are both handled.
\<close>

theorem failing_remove_event_ends_the_process:
  "listener ex_env_delete_fails (Unlink ''/w/gone.txt'') (startWatching ex_manager)
     = (Some SQLITE_IOERR, (startWatching ex_manager)\<lparr>trace := [ConsoleError SQLITE_IOERR]\<rparr>) \<and>
   run_events ex_env_delete_fails [Unlink ''/w/gone.txt'', Change ''/w/a.txt''] (startWatching ex_manager)
     = (ex_manager\<lparr>db := None, trace := [ConsoleError SQLITE_IOERR, ConsoleError SQLITE_IOERR]\<rparr>, Some 0) \<and>
   run_events ex_env [Unlink ''/w/gone.txt'', Change ''/w/a.txt''] (startWatching ex_manager)
     = ((startWatching ex_manager)
          \<lparr>db := Some \<lparr>rows = [ex_fresh (Some 2) ''/w/a.txt'' ''sha256:AAAAA'' ''2024-12-31T00:00:00.000Z''],
                        seq = 2\<rparr>,
            trace := [Emit (FileRemoved ''/w/gone.txt''), ReadContent ''/w/a.txt'',
                      Emit (FileUpdated (ex_fresh None ''/w/a.txt'' ''sha256:AAAAA''
                                           ''2025-01-01T00:00:00.000Z''))]\<rparr>, None)"
  by (simp add: ex_env_delete_fails_def ex_defs run_defs deliver_def reported_def listener_def
      startWatching_def spread_def defaultOptions_def ignore_dotfiles_def
      handleFileAddOrChange_def line_terminator_at_def shutdown_def stopWatching_def
      closeDatabase_def)

subsection \<open>C8: removing a record twice is removing it once\<close>

text \<open>
  C8. On an open database whose \<^verbatim>\<open>DELETE\<close> statement runs, \<^verbatim>\<open>#removeFileRecord\<close>
  succeeds, leaves no row for the path and keeps every other row; when the table has no
  row for the path the table is unchanged, and a second call for the same path succeeds
  as well and changes nothing more.
\<close>

theorem removeFileRecord_idempotent:
  assumes "db m = Some d" and "db_fault E (Delete p) = None"
  shows "\<exists>m1 d1. removeFileRecord E p m = (Inr (), m1) \<and> db m1 = Some d1 \<and>
           rows d1 = filter (\<lambda>row. file_path row \<noteq> p) (rows d) \<and> seq d1 = seq d \<and>
           p \<notin> set (map file_path (rows d1)) \<and>
           (p \<notin> set (map file_path (rows d)) \<longrightarrow> d1 = d) \<and>
           (\<exists>m2. removeFileRecord E p m1 = (Inr (), m2) \<and> db m2 = db m1)"
proof -
  let ?d1 = "d\<lparr>rows := filter (\<lambda>row. file_path row \<noteq> p) (rows d)\<rparr>"
  let ?m1 = "emit (FileRemoved p) (m\<lparr>db := Some ?d1\<rparr>)"
  have 1: "removeFileRecord E p m = (Inr (), ?m1)"
    using assms by (simp add: removeFileRecord_def)
  have db1: "db ?m1 = Some ?d1" by (simp add: emit_def)
  have gone: "p \<notin> set (map file_path (rows ?d1))" by auto
  have same: "?d1 = d" if "p \<notin> set (map file_path (rows d))"
  proof -
    have "filter (\<lambda>row. file_path row \<noteq> p) (rows d) = rows d"
      using that by (intro filter_True) auto
    then show ?thesis by simp
  qed
  have again: "filter (\<lambda>row. file_path row \<noteq> p) (rows ?d1) = rows ?d1" by simp
  have 2: "removeFileRecord E p ?m1 = (Inr (), emit (FileRemoved p) ?m1)"
    using assms(2) db1 again by (simp add: removeFileRecord_def emit_def)
  have "db (emit (FileRemoved p) ?m1) = db ?m1" by (simp add: emit_def)
  with 1 2 db1 gone same show ?thesis by auto
qed

theorem removeFileRecord_idempotent_witness:
  "db ex_manager = Some ex_db \<and> db_fault ex_env (Delete ''/w/gone.txt'') = None \<and>
   fst (removeFileRecord ex_env ''/w/gone.txt'' ex_manager) = Inr () \<and>
   db (snd (removeFileRecord ex_env ''/w/gone.txt'' ex_manager))
     = Some \<lparr>rows = [ex_row 2 ''/w/a.txt'' ''sha256:aaaaa''], seq = 2\<rparr> \<and>
   fst (removeFileRecord ex_env ''/w/gone.txt'' (snd (removeFileRecord ex_env ''/w/gone.txt'' ex_manager)))
     = Inr () \<and>
   db (snd (removeFileRecord ex_env ''/w/gone.txt'' (snd (removeFileRecord ex_env ''/w/gone.txt'' ex_manager))))
     = Some \<lparr>rows = [ex_row 2 ''/w/a.txt'' ''sha256:aaaaa''], seq = 2\<rparr>"
proof -
  have d: "db ex_manager = Some ex_db" by (simp add: ex_manager_def)
  have f: "db_fault ex_env (Delete ''/w/gone.txt'') = None" by (simp add: ex_env_def)
  from removeFileRecord_idempotent[OF d f] obtain m1 d1 m2 where
    1: "removeFileRecord ex_env ''/w/gone.txt'' ex_manager = (Inr (), m1)" "db m1 = Some d1"
      "rows d1 = filter (\<lambda>row. file_path row \<noteq> ''/w/gone.txt'') (rows ex_db)" "seq d1 = seq ex_db"
    and 2: "removeFileRecord ex_env ''/w/gone.txt'' m1 = (Inr (), m2)" "db m2 = db m1" by blast
  have "d1 = \<lparr>rows = [ex_row 2 ''/w/a.txt'' ''sha256:aaaaa''], seq = 2\<rparr>"
    using 1(3,4) by (cases d1) (simp add: ex_db_def ex_row_def)
  then show ?thesis using d f 1 2 by simp
qed

subsection \<open>C9: what an update leaves alone\<close>

text \<open>
  C9. \<^verbatim>\<open>#updateFileRecord\<close> changes, in the rows of the record's path, the columns
  \<^verbatim>\<open>size\<close>, \<^verbatim>\<open>modified_time\<close>, \<^verbatim>\<open>checksum\<close> and \<^verbatim>\<open>updated_at\<close> only: every row keeps
  its \<^verbatim>\<open>id\<close>, \<^verbatim>\<open>file_path\<close> and \<^verbatim>\<open>created_at\<close>, the rows of other paths are left as
  they are, and no row is added or removed.
\<close>

theorem updateFileRecord_frame:
  assumes "updateFileRecord E record m = (res, m')" and "db m = Some d"
  shows "\<exists>d'. db m' = Some d' \<and> seq d' = seq d \<and> length (rows d') = length (rows d) \<and>
           (\<forall>i < length (rows d).
              id' (rows d' ! i) = id' (rows d ! i) \<and>
              file_path (rows d' ! i) = file_path (rows d ! i) \<and>
              created_at (rows d' ! i) = created_at (rows d ! i) \<and>
              (file_path (rows d ! i) \<noteq> file_path record \<longrightarrow> rows d' ! i = rows d ! i) \<and>
              (file_path (rows d ! i) = file_path record \<and> res = Inr record \<longrightarrow>
                 rows d' ! i = (rows d ! i)\<lparr>size' := size' record,
                    modified_time := modified_time record, checksum := checksum record,
                    updated_at := updated_at record\<rparr>))"
proof (cases "db_fault E (Update (file_path record))")
  case (Some e)
  with assms have "m' = console_error e m" "res = Inl e" by (auto simp: updateFileRecord_def)
  then show ?thesis using assms(2) by (auto simp: console_error_def)
next
  case None
  let ?d = "d\<lparr>rows := map (set_columns record) (rows d)\<rparr>"
  from None assms have "m' = emit (FileUpdated record) (m\<lparr>db := Some ?d\<rparr>)"
    by (auto simp: updateFileRecord_def)
  then have "db m' = Some ?d" by (simp add: emit_def)
  moreover have "\<forall>i < length (rows d).
              id' (rows ?d ! i) = id' (rows d ! i) \<and>
              file_path (rows ?d ! i) = file_path (rows d ! i) \<and>
              created_at (rows ?d ! i) = created_at (rows d ! i) \<and>
              (file_path (rows d ! i) \<noteq> file_path record \<longrightarrow> rows ?d ! i = rows d ! i) \<and>
              (file_path (rows d ! i) = file_path record \<and> res = Inr record \<longrightarrow>
                 rows ?d ! i = (rows d ! i)\<lparr>size' := size' record,
                    modified_time := modified_time record, checksum := checksum record,
                    updated_at := updated_at record\<rparr>)"
    by (simp add: set_columns_def)
  ultimately show ?thesis by (intro exI[of _ ?d]) simp
qed

theorem updateFileRecord_frame_witness:
  "db ex_manager = Some ex_db \<and>
   fst (updateFileRecord ex_env (ex_fresh None ''/w/a.txt'' ''sha256:AAAAA'' ''2025-01-01T00:00:00.000Z'') ex_manager)
     = Inr (ex_fresh None ''/w/a.txt'' ''sha256:AAAAA'' ''2025-01-01T00:00:00.000Z'') \<and>
   db (snd (updateFileRecord ex_env (ex_fresh None ''/w/a.txt'' ''sha256:AAAAA'' ''2025-01-01T00:00:00.000Z'') ex_manager))
     = Some \<lparr>rows = [ex_row 1 ''/w/gone.txt'' ''sha256:XXXXX'',
                     ex_fresh (Some 2) ''/w/a.txt'' ''sha256:AAAAA'' ''2024-12-31T00:00:00.000Z''], seq = 2\<rparr>"
proof -
  let ?r = "ex_fresh None ''/w/a.txt'' ''sha256:AAAAA'' ''2025-01-01T00:00:00.000Z''"
  have d: "db ex_manager = Some ex_db" by (simp add: ex_manager_def)
  obtain res m' where u: "updateFileRecord ex_env ?r ex_manager = (res, m')"
    by (cases "updateFileRecord ex_env ?r ex_manager")
  have res: "res = Inr ?r" using u d by (simp add: updateFileRecord_def ex_env_def)
  from updateFileRecord_frame[OF u d] obtain d' where d': "db m' = Some d'" "seq d' = seq ex_db"
    "length (rows d') = length (rows ex_db)"
    and rows: "\<forall>i < length (rows ex_db).
              (file_path (rows ex_db ! i) \<noteq> file_path ?r \<longrightarrow> rows d' ! i = rows ex_db ! i) \<and>
              (file_path (rows ex_db ! i) = file_path ?r \<and> res = Inr ?r \<longrightarrow>
                 rows d' ! i = (rows ex_db ! i)\<lparr>size' := size' ?r,
                    modified_time := modified_time ?r, checksum := checksum ?r,
                    updated_at := updated_at ?r\<rparr>)" by blast
  have l: "length (rows d') = 2" using d'(3) by (simp add: ex_db_def)
  from rows[rule_format, of 0] have r0: "rows d' ! 0 = ex_row 1 ''/w/gone.txt'' ''sha256:XXXXX''"
    by (simp add: ex_db_def ex_row_def ex_fresh_def)
  from rows[rule_format, of 1] res have r1: "rows d' ! 1 = ex_fresh (Some 2) ''/w/a.txt'' ''sha256:AAAAA'' ''2024-12-31T00:00:00.000Z''"
    by (simp add: ex_db_def ex_row_def ex_fresh_def)
  have "rows d' = [ex_row 1 ''/w/gone.txt'' ''sha256:XXXXX'',
                   ex_fresh (Some 2) ''/w/a.txt'' ''sha256:AAAAA'' ''2024-12-31T00:00:00.000Z'']"
    using l r0 r1 by (intro nth_equalityI) (auto simp: nth_Cons' less_Suc_eq numeral_2_eq_2)
  moreover have "seq d' = 2" using d'(2) by (simp add: ex_db_def)
  ultimately have "d' = \<lparr>rows = [ex_row 1 ''/w/gone.txt'' ''sha256:XXXXX'',
                   ex_fresh (Some 2) ''/w/a.txt'' ''sha256:AAAAA'' ''2024-12-31T00:00:00.000Z''], seq = 2\<rparr>"
    by (cases d') simp
  then show ?thesis using d u res d'(1) by simp
qed

subsection \<open>C10: hidden files are synchronised at startup but not watched\<close>

lemma files_below_entries:
  "files_below dp node = map (\<lambda>(d, n). path_join d n) (entries_below dp node)"
  "files_in dp es = map (\<lambda>(d, n). path_join d n) (entries_in dp es)"
  by (induction dp node and dp es rule: entries_below_entries_in.induct) auto

lemma separator_dot_any_append:
  "dot_any name \<Longrightarrow> separator_dot_any (xs @ CHR ''/'' # name)"
  by (induction xs) auto

lemma ignore_dotfiles_hidden:
  assumes "dot_any name"
  shows "ignore_dotfiles (path_join dir name)"
proof (cases "dir = ''/''")
  case True
  have "separator_dot_any ([] @ CHR ''/'' # name)" using assms by (rule separator_dot_any_append)
  then show ?thesis using True by (simp add: ignore_dotfiles_def path_join_def)
next
  case False
  have "separator_dot_any (dir @ CHR ''/'' # name)" using assms by (rule separator_dot_any_append)
  then show ?thesis using False by (simp add: ignore_dotfiles_def path_join_def)
qed

lemma default_watcher:
  "ignored (watchOptions m) = None \<Longrightarrow> watcher (startWatching m) = Some \<lparr>ignored = Some ignore_dotfiles\<rparr>"
  "ignored (watchOptions m) = Some f \<Longrightarrow> watcher (startWatching m) = Some \<lparr>ignored = Some f\<rparr>"
  by (simp_all add: startWatching_def spread_def defaultOptions_def)

text \<open>
  Where the default pattern does match, the code does what the claim says. The scan has
  no ignore rule: after a successful first reconciliation the table has a row for every
  regular file below the watch folder, hidden or not. For a file whose name is a dot
  followed by a character that \<^verbatim>\<open>.\<close> matches, a watcher started with the default
  options hands no event for its path to the listeners; with an \<^verbatim>\<open>ignored\<close> option of
  the caller's that does not match the path, the event reaches its listener.
\<close>

lemma dotfiles_synced_not_watched:
  assumes "performInitialSync E m = (Inr u, m1)" and "db m = Some d"
    and "distinct (map file_path (rows d))"
    and "(dir, name) \<in> set (entries_below (watchFolder m) (root E))"
    and "dot_any name"
    and "event_path ev = Some (path_join dir name)"
  shows "(\<exists>d1. db m1 = Some d1 \<and> path_join dir name \<in> set (map file_path (rows d1))) \<and>
         (ignored (watchOptions m1) = None
            \<longrightarrow> deliver E' ev (startWatching m1) = (None, startWatching m1)) \<and>
         (\<forall>f. ignored (watchOptions m1) = Some f \<and> \<not> f (path_join dir name)
            \<longrightarrow> deliver E' ev (startWatching m1) = listener E' ev (startWatching m1))"
proof (intro conjI allI impI)
  have dist: "distinct (paths d)" using assms(3) by (simp add: paths_def)
  from sync_success(3)[OF assms(1,2) dist] obtain d1 where
    d1: "db m1 = Some d1" "set (paths d1) = set (files_below (watchFolder m) (root E))" by auto
  have "path_join dir name \<in> set (files_below (watchFolder m) (root E))"
    using assms(4) by (force simp: files_below_entries(1))
  then show "\<exists>d1. db m1 = Some d1 \<and> path_join dir name \<in> set (map file_path (rows d1))"
    using d1 by (auto simp: paths_def)
next
  assume "ignored (watchOptions m1) = None"
  then have w: "watcher (startWatching m1) = Some \<lparr>ignored = Some ignore_dotfiles\<rparr>"
    by (rule default_watcher(1))
  have "ignore_dotfiles (path_join dir name)" using assms(5) by (rule ignore_dotfiles_hidden)
  then have "\<not> reported \<lparr>ignored = Some ignore_dotfiles\<rparr> ev"
    using assms(6) by (simp add: reported_def)
  then show "deliver E' ev (startWatching m1) = (None, startWatching m1)"
    using w by (simp add: deliver_def)
next
  fix f assume a: "ignored (watchOptions m1) = Some f \<and> \<not> f (path_join dir name)"
  then have w: "watcher (startWatching m1) = Some \<lparr>ignored = Some f\<rparr>"
    using default_watcher(2) by blast
  have "reported \<lparr>ignored = Some f\<rparr> ev" using a assms(6) by (simp add: reported_def)
  then show "deliver E' ev (startWatching m1) = listener E' ev (startWatching m1)"
    using w by (simp add: deliver_def)
qed

lemma ex_sync_with:
  "performInitialSync (ex_env_with name) ex_empty = (Inr (), ex_synced_with name)"
  by (simp add: ex_env_with_def ex_empty_def ex_synced_with_def ex_fresh_def run_defs)

text \<open>The watch folder holds the file \<^verbatim>\<open>.env\<close>: it gets its row, and with the default
  options neither a change nor a removal of it reaches a listener; with
  \<^verbatim>\<open>ignored: () => false\<close> the removal is handled.\<close>

lemma dotfiles_synced_not_watched_example:
  "performInitialSync (ex_env_with ''.env'') ex_empty = (Inr (), ex_synced_with ''.env'') \<and>
   (''/w'', ''.env'') \<in> set (entries_below (watchFolder ex_empty) (root (ex_env_with ''.env''))) \<and>
   (\<exists>d1. db (ex_synced_with ''.env'') = Some d1 \<and> ''/w/.env'' \<in> set (map file_path (rows d1))) \<and>
   deliver (ex_env_with ''.env'') (Change ''/w/.env'') (startWatching (ex_synced_with ''.env''))
     = (None, startWatching (ex_synced_with ''.env'')) \<and>
   deliver (ex_env_with ''.env'') (Unlink ''/w/.env'') (startWatching (ex_synced_with ''.env''))
     = (None, startWatching (ex_synced_with ''.env'')) \<and>
   deliver (ex_env_with ''.env'') (Unlink ''/w/.env'')
       (startWatching ((ex_synced_with ''.env'')\<lparr>watchOptions := \<lparr>ignored = Some (\<lambda>p. False)\<rparr>\<rparr>))
     = listener (ex_env_with ''.env'') (Unlink ''/w/.env'')
         (startWatching ((ex_synced_with ''.env'')\<lparr>watchOptions := \<lparr>ignored = Some (\<lambda>p. False)\<rparr>\<rparr>))"
proof -
  let ?E = "ex_env_with ''.env''"
  let ?over = "\<lparr>ignored = Some (\<lambda>p::string. False)\<rparr>"
  have d: "db ex_empty = Some \<lparr>rows = [], seq = 0\<rparr>" by (simp add: ex_empty_def)
  have dist: "distinct (map file_path (rows \<lparr>rows = [], seq = 0\<rparr>))" by simp
  have e: "(''/w'', ''.env'') \<in> set (entries_below (watchFolder ex_empty) (root ?E))"
    by (simp add: ex_empty_def ex_env_with_def)
  have n: "dot_any ''.env''" by (simp add: line_terminator_at_def)
  have pj: "path_join ''/w'' ''.env'' = ''/w/.env''" by (simp add: path_join_def)
  have o: "ignored (watchOptions (ex_synced_with ''.env'')) = None" by (simp add: ex_synced_with_def)
  from dotfiles_synced_not_watched[OF ex_sync_with d dist e n,
      where ev = "Change ''/w/.env''" and E' = ?E] pj o
  have 1: "\<exists>d1. db (ex_synced_with ''.env'') = Some d1 \<and> ''/w/.env'' \<in> set (map file_path (rows d1))"
    and 2: "deliver ?E (Change ''/w/.env'') (startWatching (ex_synced_with ''.env''))
            = (None, startWatching (ex_synced_with ''.env''))" by simp_all
  from dotfiles_synced_not_watched[OF ex_sync_with d dist e n,
      where ev = "Unlink ''/w/.env''" and E' = ?E] pj o
  have 3: "deliver ?E (Unlink ''/w/.env'') (startWatching (ex_synced_with ''.env''))
            = (None, startWatching (ex_synced_with ''.env''))" by simp
  have s2: "performInitialSync ?E (ex_empty\<lparr>watchOptions := ?over\<rparr>)
            = (Inr (), (ex_synced_with ''.env'')\<lparr>watchOptions := ?over\<rparr>)"
    by (simp add: ex_env_with_def ex_empty_def ex_synced_with_def ex_fresh_def run_defs)
  have d2: "db (ex_empty\<lparr>watchOptions := ?over\<rparr>) = Some \<lparr>rows = [], seq = 0\<rparr>"
    by (simp add: ex_empty_def)
  have e2: "(''/w'', ''.env'') \<in> set (entries_below (watchFolder (ex_empty\<lparr>watchOptions := ?over\<rparr>)) (root ?E))"
    by (simp add: ex_empty_def ex_env_with_def)
  from dotfiles_synced_not_watched[OF s2 d2 dist e2 n,
      where ev = "Unlink ''/w/.env''" and E' = ?E] pj
  have 4: "deliver ?E (Unlink ''/w/.env'') (startWatching ((ex_synced_with ''.env'')\<lparr>watchOptions := ?over\<rparr>))
     = listener ?E (Unlink ''/w/.env'') (startWatching ((ex_synced_with ''.env'')\<lparr>watchOptions := ?over\<rparr>))"
    by simp
  show ?thesis using ex_sync_with[of "''.env''"] e 1 2 3 4 by blast
qed

text \<open>The pattern, commented \<^verbatim>\<open>ignore dotfiles\<close> in the source, misses the hidden files
  whose name continues with a line terminator after the dot: LF, CR, U+2028 (the bytes
  E2 80 A8) or U+2029.\<close>

lemma dotfiles_missed_by_the_pattern:
  "\<not> ignore_dotfiles (''/w/'' @ CHR ''.'' # CHR 0x0A # ''x'')"
  "\<not> ignore_dotfiles (''/w/'' @ CHR ''.'' # CHR 0x0D # ''x'')"
  "\<not> ignore_dotfiles (''/w/'' @ CHR ''.'' # CHR 0xE2 # CHR 0x80 # CHR 0xA8 # ''x'')"
  "\<not> ignore_dotfiles (''/w/'' @ CHR ''.'' # CHR 0xE2 # CHR 0x80 # CHR 0xA9 # ''x'')"
  "ignore_dotfiles (''/w/'' @ CHR ''.'' # CHR 0xE2 # CHR 0x80 # CHR 0xAA # ''x'')"
  by (simp_all add: ignore_dotfiles_def line_terminator_at_def)

text \<open>
  C10. The claim fails on the code for such a file. The watch folder holds the hidden
  file whose name is a dot, a line feed and \<^verbatim>\<open>x\<close>: it gets its row at startup, and
  with the default options its removal is reported all the same and reaches the
  listener, which deletes the row.
\<close>

theorem hidden_file_with_line_feed_is_watched:
  "performInitialSync (ex_env_with (CHR ''.'' # CHR 0x0A # ''x'')) ex_empty
     = (Inr (), ex_synced_with (CHR ''.'' # CHR 0x0A # ''x'')) \<and>
   (''/w'', CHR ''.'' # CHR 0x0A # ''x'')
     \<in> set (entries_below (watchFolder ex_empty) (root (ex_env_with (CHR ''.'' # CHR 0x0A # ''x'')))) \<and>
   ignored (watchOptions (ex_synced_with (CHR ''.'' # CHR 0x0A # ''x''))) = None \<and>
   event_path (Unlink (''/w/'' @ CHR ''.'' # CHR 0x0A # ''x''))
     = Some (path_join ''/w'' (CHR ''.'' # CHR 0x0A # ''x'')) \<and>
   deliver (ex_env_with (CHR ''.'' # CHR 0x0A # ''x'')) (Unlink (''/w/'' @ CHR ''.'' # CHR 0x0A # ''x''))
       (startWatching (ex_synced_with (CHR ''.'' # CHR 0x0A # ''x'')))
     = (None, (startWatching (ex_synced_with (CHR ''.'' # CHR 0x0A # ''x'')))
                \<lparr>db := Some \<lparr>rows = [], seq = 1\<rparr>,
                  trace := trace (ex_synced_with (CHR ''.'' # CHR 0x0A # ''x''))
                           @ [Emit (FileRemoved (''/w/'' @ CHR ''.'' # CHR 0x0A # ''x''))]\<rparr>)"
proof -
  let ?n = "CHR ''.'' # CHR 0x0A # ''x''"
  have 1: "(''/w'', ?n) \<in> set (entries_below (watchFolder ex_empty) (root (ex_env_with ?n)))"
    by (simp add: ex_empty_def ex_env_with_def)
  have 2: "ignored (watchOptions (ex_synced_with ?n)) = None" by (simp add: ex_synced_with_def)
  have 3: "event_path (Unlink (''/w/'' @ ?n)) = Some (path_join ''/w'' ?n)"
    by (simp add: path_join_def)
  have 4: "deliver (ex_env_with ?n) (Unlink (''/w/'' @ ?n)) (startWatching (ex_synced_with ?n))
     = (None, (startWatching (ex_synced_with ?n))
                \<lparr>db := Some \<lparr>rows = [], seq = 1\<rparr>,
                  trace := trace (ex_synced_with ?n) @ [Emit (FileRemoved (''/w/'' @ ?n))]\<rparr>)"
    by (simp add: ex_env_with_def ex_synced_with_def ex_fresh_def deliver_def reported_def
        listener_def startWatching_def spread_def defaultOptions_def ignore_dotfiles_def
        line_terminator_at_def removeFileRecord_def emit_def)
  show ?thesis using ex_sync_with[of ?n] 1 2 3 4 by blast
qed

end
